theory Spec2Isabelle
  imports Complex_Main "HOL-Library.AList"
begin

section \<open>Data model (types.ts)\<close>

text \<open>
  JavaScript numbers that hold counts, indices and seconds are integers here; the score and
  the accuracy, which the program computes in double precision, are rationals (exact
  arithmetic). Strings are lists of 8-bit characters (UTF-8 bytes).
  Two field names are changed because Isabelle reserves them: \<open>id\<close> is \<open>qId\<close> and
  \<open>text\<close> is \<open>qtext\<close>. The fields \<open>totalQuestions\<close> and \<open>responses\<close> of
  \<open>TestResult\<close> carry the suffix \<open>_res\<close>, since the configuration and the session state
  use the same names. The subject \<open>General Intelligence & Reasoning\<close> is \<open>Reasoning\<close>,
  \<open>General Awareness\<close> is \<open>GeneralAwareness\<close>; the modes \<open>Subject\<close> and \<open>Topic\<close> are
  \<open>SubjectMode\<close> and \<open>TopicMode\<close>. Of \<open>TestResult\<close> the fields \<open>date\<close> and
  \<open>aiAnalysis\<close> are left out.
\<close>

datatype Difficulty = Easy | Medium | Hard

datatype Subject = Mathematics | Reasoning | GeneralAwareness

record Question =
  qId :: string
  qtext :: string
  options :: "string list"
  correctAnswer :: int
  subject :: Subject
  topic :: string
  difficulty :: Difficulty
  explanation :: string
  pyqTag :: "string option"
  cachedHint :: "string option"

datatype Mode = Full | SubjectMode | TopicMode | Custom

record TestConfig =
  mode :: Mode
  totalQuestions :: int
  durationMinutes :: int
  selectedSubjects :: "Subject list"
  selectedTopic :: "string option"

datatype Status = Answered | NotAnswered | MarkedForReview | NotVisited | AnsweredAndMarked

text \<open>
  \<open>selectedOption\<close> is \<open>number | null\<close>; at run time the field can also be missing
  (\<open>Undefined\<close>), because the handlers build a record by spreading \<open>prev[qId]\<close>, which is
  \<open>undefined\<close> for an id without a record. For the same reason every field of a response
  is optional here: \<open>None\<close> is JavaScript's \<open>undefined\<close>.
\<close>

datatype Selection = Undefined | Null | Chosen int

record UserResponse =
  questionId :: "string option"
  selectedOption :: Selection
  status :: "Status option"
  timeSpentSeconds :: "int option"
  visited :: "bool option"
  isBookmarked :: "bool option"

text \<open>
  \<open>Record<string, UserResponse>\<close>: an object keeps its string keys in insertion order and
  an assignment to an existing key keeps the key's place, which is what \<open>AList.update\<close>
  does on an association list; \<open>map_of\<close> is the property read.
\<close>

type_synonym Responses = "(string \<times> UserResponse) list"

record TestResult =
  totalQuestions_res :: int
  attempted :: int
  correct :: int
  wrong :: int
  score :: rat
  accuracy :: rat
  timeTakenSeconds :: int
  responses_res :: Responses

section \<open>JSON.parse\<close>

text \<open>
  The application parses the provider's output and the stored snapshot with the
  platform's \<open>JSON.parse\<close>. This is a parser for the JSON grammar of ECMA-404: the four
  white-space characters, the three literals, numbers (held as exact rationals), strings
  with their escapes, arrays and objects (members in source order; a later duplicate key
  wins on lookup). A \<open>u\<close> escape with its four hexadecimal digits is stored as the
  UTF-8 bytes of that code unit.
  \<open>None\<close> is the SyntaxError. The tests \<open>length r < length s\<close> always hold (lemma
  \<open>parse_shorter\<close>); they make the termination of the recursion evident.
\<close>

datatype json =
    JNull
  | JBool bool
  | JNumber rat
  | JString string
  | JArray "json list"
  | JObject "(string \<times> json) list"

definition isWs :: "char \<Rightarrow> bool" where
  "isWs c \<longleftrightarrow> c = CHR '' '' \<or> c = CHR 0x09 \<or> c = CHR 0x0A \<or> c = CHR 0x0D"

definition skipWs :: "string \<Rightarrow> string" where
  "skipWs = dropWhile isWs"

definition isDigit :: "char \<Rightarrow> bool" where
  "isDigit c \<longleftrightarrow> (48::int) \<le> of_char c \<and> (of_char c :: int) \<le> 57"

definition digitsValue :: "string \<Rightarrow> int" where
  "digitsValue ds = foldl (\<lambda>a c. 10 * a + (of_char c - 48)) 0 ds"

definition hexValue :: "char \<Rightarrow> int option" where
  "hexValue c =
     (let n = (of_char c :: int)
      in if 48 \<le> n \<and> n \<le> 57 then Some (n - 48)
         else if 97 \<le> n \<and> n \<le> 102 then Some (n - 87)
         else if 65 \<le> n \<and> n \<le> 70 then Some (n - 55)
         else None)"

definition utf8 :: "int \<Rightarrow> string" where
  "utf8 n =
     (if n < 128 then [char_of n]
      else if n < 2048 then [char_of (192 + n div 64), char_of (128 + n mod 64)]
      else [char_of (224 + n div 4096), char_of (128 + (n div 64) mod 64), char_of (128 + n mod 64)])"

definition simpleEscape :: "char \<Rightarrow> char option" where
  "simpleEscape e =
     (if e = CHR 0x22 then Some (CHR 0x22)
      else if e = CHR 0x5C then Some (CHR 0x5C)
      else if e = CHR ''/'' then Some (CHR ''/'')
      else if e = CHR ''b'' then Some (CHR 0x08)
      else if e = CHR ''f'' then Some (CHR 0x0C)
      else if e = CHR ''n'' then Some (CHR 0x0A)
      else if e = CHR ''r'' then Some (CHR 0x0D)
      else if e = CHR ''t'' then Some (CHR 0x09)
      else None)"

definition hex4 :: "string \<Rightarrow> int option" where
  "hex4 hs =
     (case map hexValue hs of
        [Some a, Some b, Some c, Some d] \<Rightarrow> Some (((a * 16 + b) * 16 + c) * 16 + d)
      | _ \<Rightarrow> None)"

function parseString :: "string \<Rightarrow> string \<Rightarrow> (string \<times> string) option" where
  "parseString [] acc = None"
| "parseString (c # cs) acc =
     (if c = CHR 0x22 then Some (acc, cs)
      else if c = CHR 0x5C then
        (case cs of
           [] \<Rightarrow> None
         | e # r \<Rightarrow>
             if e = CHR ''u'' then
               (case hex4 (take 4 r) of
                  None \<Rightarrow> None
                | Some n \<Rightarrow> parseString (drop 4 r) (acc @ utf8 n))
             else (case simpleEscape e of
                     None \<Rightarrow> None
                   | Some x \<Rightarrow> parseString r (acc @ [x])))
      else if (of_char c :: int) < 32 then None
      else parseString cs (acc @ [c]))"
  by pat_completeness auto
termination
  by (relation "measure (\<lambda>(s, _). length s)") auto

definition parseNumber :: "string \<Rightarrow> (rat \<times> string) option" where
  "parseNumber s =
     (let neg = (case s of c # _ \<Rightarrow> c = CHR ''-'' | [] \<Rightarrow> False);
          s1 = (if neg then tl s else s);
          ds = takeWhile isDigit s1;
          s2 = dropWhile isDigit s1
      in if ds = [] \<or> (1 < length ds \<and> hd ds = CHR ''0'') then None
         else
           (let hasFrac = (case s2 of c # _ \<Rightarrow> c = CHR ''.'' | [] \<Rightarrow> False);
                fs = (if hasFrac then takeWhile isDigit (tl s2) else []);
                s3 = (if hasFrac then dropWhile isDigit (tl s2) else s2)
            in if hasFrac \<and> fs = [] then None
               else
                 (let hasExp = (case s3 of c # _ \<Rightarrow> c = CHR ''e'' \<or> c = CHR ''E'' | [] \<Rightarrow> False);
                      s4 = (if hasExp then tl s3 else s3);
                      expNeg = (hasExp \<and> (case s4 of c # _ \<Rightarrow> c = CHR ''-'' | [] \<Rightarrow> False));
                      expSign = (hasExp \<and> (case s4 of c # _ \<Rightarrow> c = CHR ''-'' \<or> c = CHR ''+'' | [] \<Rightarrow> False));
                      s5 = (if expSign then tl s4 else s4);
                      es = (if hasExp then takeWhile isDigit s5 else []);
                      s6 = (if hasExp then dropWhile isDigit s5 else s3)
                  in if hasExp \<and> es = [] then None
                     else
                       (let mantissa = of_int (digitsValue ds) + of_int (digitsValue fs) / 10 ^ length fs;
                            scaled = (if expNeg then mantissa / 10 ^ nat (digitsValue es)
                                      else mantissa * 10 ^ nat (digitsValue es))
                        in Some (if neg then - scaled else scaled, s6)))))"

lemma parseString_shorter: "parseString s acc = Some (k, r) \<Longrightarrow> length r < length s"
proof (induction s acc rule: parseString.induct)
  case (1 acc)
  then show ?case by simp
next
  case (2 c cs acc)
  show ?case
  proof (cases "c = CHR 0x22")
    case True
    with 2 show ?thesis by simp
  next
    case notq: False
    show ?thesis
    proof (cases "c = CHR 0x5C")
      case False
      with notq 2(3) 2(4) show ?thesis
        by (auto split: if_splits dest: less_SucI)
    next
      case bs: True
      show ?thesis
      proof (cases cs)
        case Nil
        with notq bs 2(4) show ?thesis by simp
      next
        case (Cons e r0)
        show ?thesis
        proof (cases "e = CHR ''u''")
          case False
          with notq bs Cons 2(4) obtain x where
            esc: "simpleEscape e = Some x" and
            rec: "parseString r0 (acc @ [x]) = Some (k, r)"
            by (auto split: option.splits)
          from 2(2) [OF notq bs Cons False esc rec]
          have "length r < length r0" .
          with Cons show ?thesis by simp
        next
          case u: True
          with notq bs Cons 2(4) obtain n where
            hx: "hex4 (take 4 r0) = Some n" and
            rec: "parseString (drop 4 r0) (acc @ utf8 n) = Some (k, r)"
            by (auto split: option.splits)
          from 2(1) [OF notq bs Cons u hx rec]
          have "length r < length (drop 4 r0)" .
          with Cons show ?thesis by simp
        qed
      qed
    qed
  qed
qed

lemma skipWs_length: "length (skipWs s) \<le> length s"
  by (simp add: skipWs_def length_dropWhile_le)

lemma skipWs_Cons_length: "skipWs s = c # r \<Longrightarrow> length r < length s"
  using skipWs_length [of s] by simp

function parseValue :: "string \<Rightarrow> (json \<times> string) option"
  and parseElements :: "string \<Rightarrow> json list \<Rightarrow> (json list \<times> string) option"
  and parseMembers :: "string \<Rightarrow> (string \<times> json) list \<Rightarrow> ((string \<times> json) list \<times> string) option"
where
  "parseValue s =
     (case skipWs s of
        [] \<Rightarrow> None
      | c # r \<Rightarrow>
          if c = CHR ''{'' then
            (case skipWs r of
               [] \<Rightarrow> None
             | d # r' \<Rightarrow>
                 if d = CHR ''}'' then Some (JObject [], r')
                 else (case parseMembers r [] of
                         None \<Rightarrow> None
                       | Some (ms, r'') \<Rightarrow> Some (JObject ms, r'')))
          else if c = CHR ''['' then
            (case skipWs r of
               [] \<Rightarrow> None
             | d # r' \<Rightarrow>
                 if d = CHR '']'' then Some (JArray [], r')
                 else (case parseElements r [] of
                         None \<Rightarrow> None
                       | Some (vs, r'') \<Rightarrow> Some (JArray vs, r'')))
          else if c = CHR 0x22 then
            (case parseString r [] of
               None \<Rightarrow> None
             | Some (str, r') \<Rightarrow> Some (JString str, r'))
          else if take 4 (c # r) = ''true'' then Some (JBool True, drop 4 (c # r))
          else if take 5 (c # r) = ''false'' then Some (JBool False, drop 5 (c # r))
          else if take 4 (c # r) = ''null'' then Some (JNull, drop 4 (c # r))
          else (case parseNumber (c # r) of
                  None \<Rightarrow> None
                | Some (x, r') \<Rightarrow> Some (JNumber x, r')))"
| "parseElements s acc =
     (case parseValue s of
        None \<Rightarrow> None
      | Some (v, r) \<Rightarrow>
          if length r < length s then
            (case skipWs r of
               [] \<Rightarrow> None
             | d # r' \<Rightarrow>
                 if d = CHR '','' then parseElements r' (acc @ [v])
                 else if d = CHR '']'' then Some (acc @ [v], r')
                 else None)
          else None)"
| "parseMembers s acc =
     (case skipWs s of
        [] \<Rightarrow> None
      | q # r \<Rightarrow>
          if q = CHR 0x22 then
            (case parseString r [] of
               None \<Rightarrow> None
             | Some (k, r1) \<Rightarrow>
                 (case skipWs r1 of
                    [] \<Rightarrow> None
                  | c # r2 \<Rightarrow>
                      if c = CHR '':'' then
                        (case parseValue r2 of
                           None \<Rightarrow> None
                         | Some (v, r3) \<Rightarrow>
                             if length r3 < length r2 then
                               (case skipWs r3 of
                                  [] \<Rightarrow> None
                                | d # r4 \<Rightarrow>
                                    if d = CHR '','' then parseMembers r4 (acc @ [(k, v)])
                                    else if d = CHR ''}'' then Some (acc @ [(k, v)], r4)
                                    else None)
                             else None)
                      else None))
          else None)"
  by pat_completeness auto

termination
proof (relation "measure (\<lambda>x. case x of
          Inl s \<Rightarrow> 2 * length s
        | Inr (Inl (s, _)) \<Rightarrow> 2 * length s + 1
        | Inr (Inr (s, _)) \<Rightarrow> 2 * length s + 1)", goal_cases)
  case 1
  show ?case by simp
next
  case (2 s c r d r')
  from skipWs_Cons_length [OF 2(1)] show ?case by simp
next
  case (3 s c r d r')
  from skipWs_Cons_length [OF 3(1)] show ?case by simp
next
  case (4 s acc)
  show ?case by simp
next
  case (5 s acc x2 v r d r')
  from skipWs_Cons_length [OF 5(4)] 5(3) show ?case by simp
next
  case (6 s acc q r x2 k r1 c r2)
  from 6(3,4) have "parseString r [] = Some (k, r1)" by simp
  from skipWs_Cons_length [OF 6(1)] parseString_shorter [OF this] skipWs_Cons_length [OF 6(5)]
  show ?case by simp
next
  case (7 s acc q r x2 k r1 c r2 x2a v r3 d r4)
  from 7(3,4) have "parseString r [] = Some (k, r1)" by simp
  from skipWs_Cons_length [OF 7(1)] parseString_shorter [OF this] skipWs_Cons_length [OF 7(5)]
    7(9) skipWs_Cons_length [OF 7(10)]
  show ?case by simp
qed

declare parseValue.simps [simp del] parseElements.simps [simp del] parseMembers.simps [simp del]

definition JSON_parse :: "string \<Rightarrow> json option" where
  "JSON_parse s =
     (case parseValue s of
        None \<Rightarrow> None
      | Some (v, r) \<Rightarrow> if skipWs r = [] then Some v else None)"

text \<open>Property read \<open>v.k\<close> on a parsed value that is an object.\<close>

definition field :: "string \<Rightarrow> json \<Rightarrow> json option" where
  "field k v = (case v of JObject kvs \<Rightarrow> map_of (rev kvs) k | _ \<Rightarrow> None)"

section \<open>The test session (components/TestInterface.tsx)\<close>

text \<open>The state variables of the component; the props are passed to each handler.\<close>

record Session =
  currentQuestionIndex :: int
  responses :: Responses
  timeLeft :: int
  isPaused :: bool

text \<open>\<open>questions[i]\<close>: \<open>undefined\<close> outside the array.\<close>

definition questionAt :: "Question list \<Rightarrow> int \<Rightarrow> Question option" where
  "questionAt questions i =
     (if 0 \<le> i \<and> i < int (length questions) then Some (questions ! nat i) else None)"

text \<open>\<open>{...prev[qId]}\<close>: spreading \<open>undefined\<close> gives an object without fields.\<close>

definition emptyResponse :: UserResponse where
  "emptyResponse =
     \<lparr>questionId = None, selectedOption = Undefined, status = None,
      timeSpentSeconds = None, visited = None, isBookmarked = None\<rparr>"

definition spread :: "UserResponse option \<Rightarrow> UserResponse" where
  "spread r = (case r of None \<Rightarrow> emptyResponse | Some u \<Rightarrow> u)"

definition initialResponse :: "string \<Rightarrow> UserResponse" where
  "initialResponse i =
     \<lparr>questionId = Some i, selectedOption = Null, status = Some NotVisited,
      timeSpentSeconds = Some 0, visited = Some False, isBookmarked = Some False\<rparr>"

text \<open>The effect that gives every loaded question without a record its initial record.\<close>

fun syncResponses :: "Question list \<Rightarrow> Responses \<Rightarrow> Responses" where
  "syncResponses [] next = next"
| "syncResponses (q # qs) next =
     syncResponses qs
       (case map_of next (qId q) of
          None \<Rightarrow> AList.update (qId q) (initialResponse (qId q)) next
        | Some _ \<Rightarrow> next)"

definition updateStatus :: "string \<Rightarrow> Status option \<Rightarrow> bool \<Rightarrow> Responses \<Rightarrow> Responses" where
  "updateStatus i newStatus markVisited prev =
     (case map_of prev i of
        None \<Rightarrow> prev
      | Some current \<Rightarrow>
          (let updatedStatus0 = (case newStatus of Some n \<Rightarrow> Some n | None \<Rightarrow> status current);
               updatedStatus = (if markVisited \<and> status current = Some NotVisited
                                then Some NotAnswered else updatedStatus0)
           in AList.update i
                (current\<lparr>status := updatedStatus,
                         visited := (if markVisited then Some True else visited current)\<rparr>)
                prev))"

text \<open>
  A handler that reads \<open>questions[currentQuestionIndex].id\<close> throws a TypeError when the
  current question is not loaded: that is the result \<open>None\<close>.
\<close>

definition handleOptionSelect :: "Question list \<Rightarrow> int \<Rightarrow> Session \<Rightarrow> Session option" where
  "handleOptionSelect questions optionIndex s =
     (case questionAt questions (currentQuestionIndex s) of
        None \<Rightarrow> None
      | Some q \<Rightarrow>
          Some (s\<lparr>responses :=
            AList.update (qId q)
              ((spread (map_of (responses s) (qId q)))
                 \<lparr>selectedOption := Chosen optionIndex, status := Some Answered\<rparr>)
              (responses s)\<rparr>))"

text \<open>
  \<open>!prev[qId].isBookmarked\<close> reads a property of \<open>prev[qId]\<close>, so a missing record is a
  TypeError as well; a missing flag is falsy.
\<close>

definition handleBookmark :: "Question list \<Rightarrow> Session \<Rightarrow> Session option" where
  "handleBookmark questions s =
     (case questionAt questions (currentQuestionIndex s) of
        None \<Rightarrow> None
      | Some q \<Rightarrow>
          (case map_of (responses s) (qId q) of
             None \<Rightarrow> None
           | Some r \<Rightarrow>
               Some (s\<lparr>responses :=
                 AList.update (qId q)
                   (r\<lparr>isBookmarked := Some (\<not> (isBookmarked r = Some True))\<rparr>)
                   (responses s)\<rparr>)))"

definition handleClearResponse :: "Question list \<Rightarrow> Session \<Rightarrow> Session option" where
  "handleClearResponse questions s =
     (case questionAt questions (currentQuestionIndex s) of
        None \<Rightarrow> None
      | Some q \<Rightarrow>
          Some (s\<lparr>responses :=
            AList.update (qId q)
              ((spread (map_of (responses s) (qId q)))
                 \<lparr>selectedOption := Null, status := Some NotAnswered\<rparr>)
              (responses s)\<rparr>))"

subsection \<open>The timer\<close>

text \<open>
  The body of the timer effect, which React runs again whenever \<open>timeLeft\<close>,
  \<open>currentQuestionIndex\<close> or \<open>isPaused\<close> changes. It returns at once, calls
  \<open>finishTest\<close>, or arms the one-second interval. The two tests are kept in the order of
  the source.
\<close>

datatype TimerAction = Return | CallFinishTest | SetInterval

definition timerEffect :: "Session \<Rightarrow> TimerAction" where
  "timerEffect s =
     (if isPaused s \<or> timeLeft s \<le> 0 then Return
      else if timeLeft s \<le> 0 then CallFinishTest
      else SetInterval)"

text \<open>The interval's callback: \<open>(prev[qId]?.timeSpentSeconds || 0) + 1\<close>.\<close>

definition intervalCallback :: "Question list \<Rightarrow> Session \<Rightarrow> Session" where
  "intervalCallback questions s =
     (let s' = s\<lparr>timeLeft := timeLeft s - 1\<rparr>
      in case questionAt questions (currentQuestionIndex s) of
           None \<Rightarrow> s'
         | Some q \<Rightarrow>
             s'\<lparr>responses :=
               AList.update (qId q)
                 ((spread (map_of (responses s) (qId q)))
                    \<lparr>timeSpentSeconds :=
                       Some ((case map_of (responses s) (qId q) of
                                None \<Rightarrow> 0
                              | Some r \<Rightarrow> (case timeSpentSeconds r of None \<Rightarrow> 0 | Some t \<Rightarrow> t)) + 1)\<rparr>)
                 (responses s)\<rparr>)"

subsection \<open>Scoring\<close>

text \<open>
  \<open>parseFloat(x.toFixed(2))\<close>: \<open>toFixed\<close> picks the integer \<open>n\<close> with \<open>n / 100\<close> nearest to
  the magnitude of \<open>x\<close>, the larger one on a tie, and keeps the sign.
\<close>

definition toFixed2 :: "rat \<Rightarrow> rat" where
  "toFixed2 x =
     (if x < 0 then - (of_int \<lfloor>(- x) * 100 + 1 / 2\<rfloor> / 100)
      else of_int \<lfloor>x * 100 + 1 / 2\<rfloor> / 100)"

text \<open>
  \<open>finishTest\<close>, as a function of the props and the state it reads. The date of the
  result and the removal of the stored snapshot are left out.
\<close>

definition finishTest :: "Question list \<Rightarrow> int \<Rightarrow> Session \<Rightarrow> TestResult" where
  "finishTest questions durationMins s =
     (let attempted' = int (length (filter (\<lambda>r. selectedOption r \<noteq> Null) (map snd (responses s))));
          correct' = foldl (\<lambda>acc q.
                        case map_of (responses s) (qId q) of
                          None \<Rightarrow> acc
                        | Some r \<Rightarrow> acc + (if selectedOption r = Chosen (correctAnswer q) then 1 else 0))
                      0 questions;
          wrong' = attempted' - correct';
          score' = toFixed2 (of_int correct' * 1 - of_int wrong' * (1 / 3))
      in \<lparr>totalQuestions_res = int (length questions),
          attempted = attempted',
          correct = correct',
          wrong = wrong',
          score = score',
          accuracy = (if attempted' > 0
                      then toFixed2 ((of_int correct' / of_int attempted') * 100) else 0),
          timeTakenSeconds = durationMins * 60 - timeLeft s,
          responses_res = responses s\<rparr>)"

section \<open>The content provider adapter (services/geminiService.ts)\<close>

text \<open>The static fallback questions, as the source lists them.\<close>

definition FALLBACK_QUESTIONS :: "Question list" where
  "FALLBACK_QUESTIONS =
     [\<lparr>qId = ''fb-1'',
       qtext = ''If A:B = 3:4 and B:C = 8:9, then find A:C.'',
       options = [''1:2'', ''3:2'', ''1:3'', ''2:3''],
       correctAnswer = 3,
       subject = Mathematics,
       topic = ''Ratio & Proportion'',
       difficulty = Easy,
       explanation = ''Standard: A/C = (A/B)*(B/C) = (3/4)*(8/9) = 2/3. Shortcut: Write A:B (3:4) and B:C (8:9) below it. Multiply columns: A=3*8=24, C=4*9=36. 24:36 = 2:3.'',
       pyqTag = Some ''RRB NTPC 2016 Shift 1'',
       cachedHint = None\<rparr>,
      \<lparr>qId = ''fb-2'',
       qtext = ''Which vitamin is water soluble?'',
       options = [''Vitamin A'', ''Vitamin D'', ''Vitamin C'', ''Vitamin K''],
       correctAnswer = 2,
       subject = GeneralAwareness,
       topic = ''General Science'',
       difficulty = Medium,
       explanation = ''Vitamin B and C are water soluble. Mnemonic: 'WBC' -> Water Soluble = B & C. Fat soluble are 'KEDA'.'',
       pyqTag = Some ''RRB NTPC 28 Dec 2020'',
       cachedHint = None\<rparr>,
      \<lparr>qId = ''fb-3'',
       qtext = ''In a certain code, 'ROCKET' is written as 'TCMQKV'. How is 'DRIVER' written in that code?'',
       options = [''FTKXGP'', ''FTKIGT'', ''FTKXGT'', ''GUKYHU''],
       correctAnswer = 2,
       subject = Reasoning,
       topic = ''Coding-Decoding'',
       difficulty = Medium,
       explanation = ''Pattern: +2, -2, +2, -2, +2, -2. R(+2)=T, O(-2)=M... Similarly, D(+2)=F, R(-2)=P. Correct Logic: R(+2)=T, O(-2)=M, C(+2)=E, K(-2)=I, E(+2)=G, T(-2)=R.'',
       pyqTag = Some ''RRB NTPC CBT-2 2022'',
       cachedHint = None\<rparr>]"

text \<open>
  \<open>s.replace(/pat/g, "")\<close> for a literal pattern: every match is deleted, scanning from
  the left, matches not overlapping.
\<close>

function deleteAll :: "string \<Rightarrow> string \<Rightarrow> string" where
  "deleteAll pat [] = []"
| "deleteAll pat (c # cs) =
     (if pat \<noteq> [] \<and> take (length pat) (c # cs) = pat
      then deleteAll pat (drop (length pat) (c # cs))
      else c # deleteAll pat cs)"
  by pat_completeness auto
termination
  by (relation "measure (\<lambda>(pat, s). length s)") auto

text \<open>
  \<open>trim\<close>, for the white space and line terminators of ASCII. JavaScript also trims
  the white space beyond ASCII; what is trimmed holds no bracket, so it does not change
  the text that is extracted afterwards (lemmas \<open>extractArrayText_strip\<close> and
  \<open>extractArrayText_trim\<close>).
\<close>

definition isSpace :: "char \<Rightarrow> bool" where
  "isSpace c \<longleftrightarrow> c = CHR '' '' \<or> c = CHR 0x09 \<or> c = CHR 0x0A \<or> c = CHR 0x0B \<or> c = CHR 0x0C \<or> c = CHR 0x0D"

definition trim :: "string \<Rightarrow> string" where
  "trim s = rev (dropWhile isSpace (rev (dropWhile isSpace s)))"

text \<open>\<open>indexOf\<close> and \<open>lastIndexOf\<close> of one character: \<open>-1\<close> when it does not occur.\<close>

fun indexOf :: "char \<Rightarrow> string \<Rightarrow> int" where
  "indexOf c [] = - 1"
| "indexOf c (x # xs) =
     (if x = c then 0 else (let i = indexOf c xs in if i = - 1 then - 1 else i + 1))"

definition lastIndexOf :: "char \<Rightarrow> string \<Rightarrow> int" where
  "lastIndexOf c s =
     (let i = indexOf c (rev s) in if i = - 1 then - 1 else int (length s) - 1 - i)"

text \<open>\<open>s.substring(a, b)\<close> for \<open>0 \<le> a \<le> b\<close>.\<close>

definition substring :: "int \<Rightarrow> int \<Rightarrow> string \<Rightarrow> string" where
  "substring a b s = take (nat (b - a)) (drop (nat a) s)"

text \<open>
  The text from the first \<open>[\<close> to the last \<open>]\<close>; \<open>None\<close> is the
  \<open>Error("Invalid JSON structure found")\<close> that the function throws to its own handler.
\<close>

definition extractArrayText :: "string \<Rightarrow> string option" where
  "extractArrayText jsonStr =
     (let firstOpen = indexOf (CHR ''['') jsonStr;
          lastClose = lastIndexOf (CHR '']'') jsonStr
      in if firstOpen \<noteq> - 1 \<and> lastClose \<noteq> - 1 \<and> lastClose > firstOpen
         then Some (substring firstOpen (lastClose + 1) jsonStr)
         else None)"

text \<open>
  Whether a \<open>[\<close> stands somewhere before a \<open>]\<close> in a text: the condition under which
  \<open>extractArrayText\<close> finds a text to extract (lemma \<open>hasSpan_decompose\<close>).
\<close>

fun hasSpan :: "string \<Rightarrow> bool" where
  "hasSpan [] = False"
| "hasSpan (c # cs) = ((c = CHR ''['' \<and> CHR '']'' \<in> set cs) \<or> hasSpan cs)"

text \<open>\<open>xs.slice(0, n)\<close>: a negative \<open>n\<close> counts from the end.\<close>

definition slice0 :: "int \<Rightarrow> 'a list \<Rightarrow> 'a list" where
  "slice0 n xs = (if n < 0 then take (nat (int (length xs) + n)) xs else take (nat n) xs)"

text \<open>
  What the function sees of its surroundings: the configured key, the provider (what
  \<open>generateContent\<close> does with the prompt: it rejects, or it answers with a text, which may
  be missing), and the clock and the random digits that make the identifier of the
  \<open>i\<close>-th question of a parsed batch. Of the prompt, the parts that are interpolated are
  kept.
\<close>

record Prompt =
  count :: int
  subjectsStr :: string
  topicContext :: string

datatype ProviderResult = Rejects | Responds "string option"

record Env =
  API_KEY :: "string option"
  generateContent :: "Prompt \<Rightarrow> ProviderResult"
  dateNow :: "nat \<Rightarrow> string"
  randomDigits :: "nat \<Rightarrow> string"

text \<open>A string that is \<open>undefined\<close> or empty is falsy.\<close>

definition truthy :: "string option \<Rightarrow> bool" where
  "truthy v = (case v of None \<Rightarrow> False | Some s \<Rightarrow> s \<noteq> [])"

definition subjectName :: "Subject \<Rightarrow> string" where
  "subjectName s =
     (case s of
        Mathematics \<Rightarrow> ''Mathematics''
      | Reasoning \<Rightarrow> ''General Intelligence & Reasoning''
      | GeneralAwareness \<Rightarrow> ''General Awareness'')"

fun join :: "string \<Rightarrow> string list \<Rightarrow> string" where
  "join sep [] = []"
| "join sep [x] = x"
| "join sep (x # y # ys) = x @ sep @ join sep (y # ys)"

definition buildPrompt :: "TestConfig \<Rightarrow> int \<Rightarrow> Prompt" where
  "buildPrompt config batchSize =
     \<lparr>count = min batchSize 5,
      subjectsStr = join '', '' (map subjectName (selectedSubjects config)),
      topicContext =
        (if truthy (selectedTopic config)
         then ''Focus specifically on the topic: '' @ the (selectedTopic config) @ ''.''
         else ''Mix the topics based on standard RRB NTPC weightage.'')\<rparr>"

definition genId :: "Env \<Rightarrow> nat \<Rightarrow> string" where
  "genId env i = ''gen-'' @ dateNow env i @ ''-'' @ randomDigits env i"

text \<open>
  The parsed elements are used as \<open>Question\<close> objects without a check. The record has
  the fields of the type, so this reads each field from the element; a field that is
  missing, of another type or outside its enumeration cannot be held by the record and
  gets a fixed value (\<open>-1\<close> for \<open>correctAnswer\<close>, which no option index equals). No theorem
  below depends on a field read here other than through \<open>qId\<close>, which is always
  overwritten.
\<close>

definition stringOf :: "json option \<Rightarrow> string" where
  "stringOf v = (case v of Some (JString s) \<Rightarrow> s | _ \<Rightarrow> [])"

definition questionOfJson :: "json \<Rightarrow> Question" where
  "questionOfJson q =
     \<lparr>qId = stringOf (field ''id'' q),
      qtext = stringOf (field ''text'' q),
      options = (case field ''options'' q of
                   Some (JArray xs) \<Rightarrow> map (\<lambda>x. stringOf (Some x)) xs
                 | _ \<Rightarrow> []),
      correctAnswer = (case field ''correctAnswer'' q of
                         Some (JNumber r) \<Rightarrow> if of_int \<lfloor>r\<rfloor> = r then \<lfloor>r\<rfloor> else - 1
                       | _ \<Rightarrow> - 1),
      subject = (let s = stringOf (field ''subject'' q)
                 in if s = subjectName Reasoning then Reasoning
                    else if s = subjectName GeneralAwareness then GeneralAwareness
                    else Mathematics),
      topic = stringOf (field ''topic'' q),
      difficulty = (let d = stringOf (field ''difficulty'' q)
                    in if d = ''Easy'' then Easy else if d = ''Hard'' then Hard else Medium),
      explanation = stringOf (field ''explanation'' q),
      pyqTag = (case field ''pyqTag'' q of Some (JString s) \<Rightarrow> Some s | _ \<Rightarrow> None),
      cachedHint = (case field ''cachedHint'' q of Some (JString s) \<Rightarrow> Some s | _ \<Rightarrow> None)\<rparr>"

definition withIds :: "Env \<Rightarrow> json list \<Rightarrow> Question list" where
  "withIds env xs = map (\<lambda>(i, q). (questionOfJson q)\<lparr>qId := genId env i\<rparr>) (enumerate 0 xs)"

text \<open>The clean-up of the response text before the extraction.\<close>

definition cleanResponse :: "string \<Rightarrow> string" where
  "cleanResponse text = trim (deleteAll ''```'' (deleteAll ''```json'' text))"

text \<open>
  The \<open>try\<close> block of \<open>generateQuestions\<close> up to \<open>JSON.parse\<close>. \<open>None\<close> means that
  an exception reached the handler: the request was rejected, the function threw its
  own \<open>Error\<close>, or \<open>JSON.parse\<close> threw a SyntaxError. A text that starts with \<open>[\<close>
  parses to an array or not at all. \<open>response.text || ""\<close> turns a missing text into
  the empty string.
\<close>

definition tryBlock :: "Env \<Rightarrow> TestConfig \<Rightarrow> int \<Rightarrow> json list option" where
  "tryBlock env config batchSize =
     (case generateContent env (buildPrompt config batchSize) of
        Rejects \<Rightarrow> None
      | Responds text \<Rightarrow>
          (let jsonStr = cleanResponse (case text of None \<Rightarrow> [] | Some t \<Rightarrow> t)
           in case extractArrayText jsonStr of
                None \<Rightarrow> None
              | Some arr \<Rightarrow>
                  (case JSON_parse arr of
                     Some (JArray questionsData) \<Rightarrow> Some questionsData
                   | _ \<Rightarrow> None)))"

text \<open>
  \<open>generateQuestions\<close>: without a key the whole fallback list; otherwise the parsed
  elements with their new ids, or from the handler the fallback slice.
\<close>

definition generateQuestions :: "Env \<Rightarrow> TestConfig \<Rightarrow> int \<Rightarrow> Question list" where
  "generateQuestions env config batchSize =
     (if \<not> truthy (API_KEY env) then FALLBACK_QUESTIONS
      else
        (let safeBatchSize = min batchSize 5
         in case tryBlock env config batchSize of
              Some questionsData \<Rightarrow> withIds env questionsData
            | None \<Rightarrow> slice0 safeBatchSize FALLBACK_QUESTIONS))"

section \<open>The application (App.tsx)\<close>

subsection \<open>Restoring a stored session\<close>

text \<open>
  \<open>Date.now() - parsed.timestamp < 24 * 60 * 60 * 1000\<close> converts the timestamp to a
  number. \<open>undefined\<close> gives NaN, \<open>null\<close> gives 0, a boolean 0 or 1; a comparison with
  NaN is false. The conversion of a string, an array or an object (the application
  writes a number) goes through JavaScript's string-to-number conversion, which is the
  parameter \<open>coerce\<close>.
\<close>

datatype JSNumber = NaN | Finite rat | PosInfinity | NegInfinity

definition toNumber :: "(json \<Rightarrow> JSNumber) \<Rightarrow> json option \<Rightarrow> JSNumber" where
  "toNumber coerce v =
     (case v of
        None \<Rightarrow> NaN
      | Some JNull \<Rightarrow> Finite 0
      | Some (JBool b) \<Rightarrow> Finite (if b then 1 else 0)
      | Some (JNumber r) \<Rightarrow> Finite r
      | Some other \<Rightarrow> coerce other)"

text \<open>\<open>now - t < limit\<close> for a finite \<open>now\<close>.\<close>

definition elapsedLess :: "int \<Rightarrow> JSNumber \<Rightarrow> int \<Rightarrow> bool" where
  "elapsedLess now t limit =
     (case t of
        NaN \<Rightarrow> False
      | Finite r \<Rightarrow> of_int now - r < of_int limit
      | PosInfinity \<Rightarrow> True
      | NegInfinity \<Rightarrow> False)"

text \<open>
  The first part of the mount effect. \<open>saved\<close> is what \<open>localStorage.getItem\<close> returns;
  the result is the session offered for resume (\<open>setSavedSession\<close>) and the stored item
  afterwards. Reading \<open>.timestamp\<close> of \<open>null\<close> is a TypeError, which the handler catches
  like the SyntaxError.
\<close>

record Restored =
  savedSession :: "json option"
  storedItem :: "string option"

definition restoreSession :: "(json \<Rightarrow> JSNumber) \<Rightarrow> int \<Rightarrow> string option \<Rightarrow> Restored" where
  "restoreSession coerce now saved =
     (case saved of
        None \<Rightarrow> \<lparr>savedSession = None, storedItem = None\<rparr>
      | Some s \<Rightarrow>
          if s = [] then \<lparr>savedSession = None, storedItem = Some s\<rparr>
          else
            (case JSON_parse s of
               None \<Rightarrow> \<lparr>savedSession = None, storedItem = None\<rparr>
             | Some JNull \<Rightarrow> \<lparr>savedSession = None, storedItem = None\<rparr>
             | Some parsed \<Rightarrow>
                 if elapsedLess now (toNumber coerce (field ''timestamp'' parsed)) (24 * 60 * 60 * 1000)
                 then \<lparr>savedSession = Some parsed, storedItem = Some s\<rparr>
                 else \<lparr>savedSession = None, storedItem = None\<rparr>))"

subsection \<open>The question bank and the start of a test\<close>

text \<open>
  The state of the component that the loader uses: the active question set, the bank,
  and the latch \<open>isFetchingRef.current\<close>. Three more fields record what the program
  leaves to the run time: the \<open>generateQuestions\<close> calls of \<open>loadMoreQuestions\<close> that have
  not returned (each with its batch size), the \<open>setTimeout\<close> callbacks that have not run
  (each with the count it captured), and the batch sizes of all calls made so far by
  \<open>handleStartTest\<close> and \<open>loadMoreQuestions\<close>.
\<close>

record App =
  questions :: "Question list"
  questionBank :: "Subject \<Rightarrow> Question list"
  isFetching :: bool
  pending :: "int list"
  timers :: "int list"
  requested :: "int list"

definition initialApp :: App where
  "initialApp =
     \<lparr>questions = [], questionBank = (\<lambda>_. []), isFetching = False,
      pending = [], timers = [], requested = []\<rparr>"

text \<open>
  The preload of the mount effect: one \<open>generateQuestions\<close> call per subject, started
  together, each appending its result to its subject's entry of the bank.
\<close>

definition preloadConfig :: "Subject \<Rightarrow> TestConfig" where
  "preloadConfig s =
     \<lparr>mode = SubjectMode, totalQuestions = 10, durationMinutes = 10,
      selectedSubjects = [s], selectedTopic = None\<rparr>"

definition preloadQuestions :: "Env \<Rightarrow> App \<Rightarrow> App" where
  "preloadQuestions env app =
     app\<lparr>questionBank :=
       (\<lambda>s. questionBank app s @ generateQuestions env (preloadConfig s) 5)\<rparr>"

text \<open>
  \<open>loadCache\<close>: the cached questions, grouped by subject, replace the bank's entries of
  the subjects that occur among them.
\<close>

definition loadCache :: "Question list \<Rightarrow> App \<Rightarrow> App" where
  "loadCache cached app =
     app\<lparr>questionBank :=
       (\<lambda>s. if filter (\<lambda>q. subject q = s) cached = [] then questionBank app s
            else filter (\<lambda>q. subject q = s) cached)\<rparr>"

text \<open>The merge of \<open>loadMoreQuestions\<close>: the new questions whose id is not yet present.\<close>

definition mergeQuestions :: "Question list \<Rightarrow> Question list \<Rightarrow> Question list" where
  "mergeQuestions prev newQs = prev @ filter (\<lambda>q. qId q \<notin> set (map qId prev)) newQs"

text \<open>
  \<open>loadMoreQuestions\<close> up to its \<open>await\<close>: the two guards, the latch, and the call of
  \<open>generateQuestions\<close> with the batch size \<open>min(remaining, 5)\<close>.
\<close>

definition loadMoreQuestions :: "TestConfig \<Rightarrow> int \<Rightarrow> App \<Rightarrow> App" where
  "loadMoreQuestions config currentCount app =
     (if currentCount \<ge> totalQuestions config then app
      else if isFetching app then app
      else
        (let remaining = totalQuestions config - currentCount;
             batchSize = min remaining 5
         in app\<lparr>isFetching := True,
                pending := pending app @ [batchSize],
                requested := requested app @ [batchSize]\<rparr>))"

text \<open>
  The rest of \<open>loadMoreQuestions\<close>, when the awaited call returns \<open>newQs\<close>: the merge,
  and the timer for the next batch if the set is still short of the total.
\<close>

definition batchReturns :: "TestConfig \<Rightarrow> Question list \<Rightarrow> App \<Rightarrow> App" where
  "batchReturns config newQs app =
     (case pending app of
        [] \<Rightarrow> app
      | b # rest \<Rightarrow>
          (let updated = mergeQuestions (questions app) newQs
           in app\<lparr>questions := updated,
                  pending := rest,
                  timers := (if int (length updated) < totalQuestions config
                             then timers app @ [int (length updated)] else timers app)\<rparr>))"

text \<open>The handler of \<open>loadMoreQuestions\<close>, when the awaited call throws.\<close>

definition batchThrows :: "App \<Rightarrow> App" where
  "batchThrows app =
     (case pending app of
        [] \<Rightarrow> app
      | b # rest \<Rightarrow> app\<lparr>pending := rest, isFetching := False\<rparr>)"

text \<open>The callback of \<open>setTimeout\<close>: it releases the latch and calls the loader again.\<close>

definition timerFires :: "TestConfig \<Rightarrow> App \<Rightarrow> App" where
  "timerFires config app =
     (case timers app of
        [] \<Rightarrow> app
      | c # rest \<Rightarrow> loadMoreQuestions config c (app\<lparr>timers := rest, isFetching := False\<rparr>))"

definition handleRequestMoreQuestions :: "TestConfig \<Rightarrow> App \<Rightarrow> App" where
  "handleRequestMoreQuestions config app =
     (if \<not> isFetching app \<and> int (length (questions app)) < totalQuestions config
      then loadMoreQuestions config (int (length (questions app))) app
      else app)"

text \<open>
  \<open>handleStartTest\<close>. With a usable bank the test starts from up to five banked
  questions per selected subject; otherwise it awaits \<open>generateQuestions(config, 5)\<close>,
  whose result is the argument \<open>fetchedQs\<close>. Either way the loader is called if the set
  is short of the total.
\<close>

definition initialFromBank :: "TestConfig \<Rightarrow> (Subject \<Rightarrow> Question list) \<Rightarrow> Question list" where
  "initialFromBank config bank =
     (if truthy (selectedTopic config) then []
      else concat (map (\<lambda>subj. take (nat (min (int (length (bank subj))) 5)) (bank subj))
                       (selectedSubjects config)))"

definition bankAfterStart :: "TestConfig \<Rightarrow> (Subject \<Rightarrow> Question list) \<Rightarrow> Subject \<Rightarrow> Question list" where
  "bankAfterStart config bank =
     (\<lambda>s. if s \<in> set (selectedSubjects config)
          then drop (nat (min (int (length (bank s))) 5)) (bank s) else bank s)"

definition handleStartTest :: "TestConfig \<Rightarrow> Question list \<Rightarrow> App \<Rightarrow> App" where
  "handleStartTest config fetchedQs app =
     (let initialQs = initialFromBank config (questionBank app)
      in if initialQs \<noteq> [] then
           (let app1 = app\<lparr>questionBank := bankAfterStart config (questionBank app),
                            questions := initialQs\<rparr>
            in if int (length initialQs) < totalQuestions config
               then loadMoreQuestions config (int (length initialQs)) app1 else app1)
         else
           (let app1 = app\<lparr>questions := fetchedQs, requested := requested app @ [5]\<rparr>
            in if int (length fetchedQs) < totalQuestions config
               then loadMoreQuestions config (int (length fetchedQs)) app1 else app1))"

subsection \<open>Runs of the loader\<close>

text \<open>
  What can happen during a session, in any order: the test screen asks for more
  questions, the call in flight returns a batch or throws, a timer fires. An event that
  is not enabled (no call in flight, no timer set) leaves the state as it is.
\<close>

datatype Event = RequestMore | Returns "Question list" | Throws | TimerFires

fun step :: "TestConfig \<Rightarrow> Event \<Rightarrow> App \<Rightarrow> App" where
  "step config RequestMore app = handleRequestMoreQuestions config app"
| "step config (Returns newQs) app = batchReturns config newQs app"
| "step config Throws app = batchThrows app"
| "step config TimerFires app = timerFires config app"

fun run :: "TestConfig \<Rightarrow> Event list \<Rightarrow> App \<Rightarrow> App" where
  "run config [] app = app"
| "run config (e # es) app = run config es (step config e app)"

text \<open>
  The run in which every request is answered by the next batch of a list and the timer
  that the answer sets fires before the next answer.
\<close>

fun answerAll :: "TestConfig \<Rightarrow> Question list list \<Rightarrow> App \<Rightarrow> App" where
  "answerAll config [] app = app"
| "answerAll config (b # bs) app = answerAll config bs (timerFires config (batchReturns config b app))"

subsection \<open>The component from mount on\<close>

text \<open>
  The whole component. Besides the loader's state it has the selected configuration and
  the calls of \<open>generateQuestions\<close> that are made outside \<open>loadMoreQuestions\<close> and have
  not returned: the preload calls of the mount effect, one for each subject, and the
  first fetch that \<open>handleStartTest\<close> awaits when the bank gives nothing. A call and a
  timer of the loader are closures over the configuration that the loader was called
  with; \<open>loaderConfigs\<close> and \<open>timerConfigs\<close> hold it, in the order of \<open>pending\<close> and
  \<open>timers\<close>. \<open>cacheRead\<close> says that \<open>getCachedQuestions\<close> has not returned yet.
  \<open>cacheQuestions\<close> (utils/db) is taken not to throw: by the specification a failure
  of the store does not reach its caller.
\<close>

record Portal =
  core :: App
  currentConfig :: "TestConfig option"
  cacheRead :: bool
  preloads :: "Subject list"
  firstFetches :: "TestConfig list"
  loaderConfigs :: "TestConfig list"
  timerConfigs :: "TestConfig list"

text \<open>
  The component after the mount effect has run: the cache is being read and the three
  preload calls have been started, none of them awaited.
\<close>

definition mounted :: Portal where
  "mounted =
     \<lparr>core = initialApp, currentConfig = None, cacheRead = True,
      preloads = [Mathematics, Reasoning, GeneralAwareness],
      firstFetches = [], loaderConfigs = [], timerConfigs = []\<rparr>"

text \<open>
  A handler that may call the loader with \<open>config\<close>: if it made a request, the request
  holds that configuration.
\<close>

definition callLoader :: "TestConfig \<Rightarrow> (App \<Rightarrow> App) \<Rightarrow> Portal \<Rightarrow> Portal" where
  "callLoader config f w =
     (let a = f (core w)
      in w\<lparr>core := a,
           loaderConfigs :=
             loaderConfigs w @ replicate (length (pending a) - length (pending (core w))) config\<rparr>)"

text \<open>The cache read and a preload call return.\<close>

definition cacheLoaded :: "Question list \<Rightarrow> Portal \<Rightarrow> Portal" where
  "cacheLoaded cached w =
     (if cacheRead w then w\<lparr>core := loadCache cached (core w), cacheRead := False\<rparr> else w)"

definition preloadReturns :: "Subject \<Rightarrow> Question list \<Rightarrow> Portal \<Rightarrow> Portal" where
  "preloadReturns s qs w =
     (if s \<in> set (preloads w)
      then w\<lparr>preloads := remove1 s (preloads w),
             core := (core w)\<lparr>questionBank :=
                       (questionBank (core w))(s := questionBank (core w) s @ qs)\<rparr>\<rparr>
      else w)"

text \<open>
  \<open>handleConfigSelect\<close>, and \<open>handleStartTest\<close> in its two parts: up to the \<open>await\<close> of
  the first fetch (with a usable bank there is none and the test starts at once), and
  from the return of the first fetch on. Any of the first fetches in flight may return,
  the \<open>n\<close>-th one here. Lemmas \<open>startTest_from_bank\<close> and \<open>startTest_from_fetch\<close>
  relate the two parts to \<open>handleStartTest\<close> above.
\<close>

definition handleConfigSelect :: "TestConfig \<Rightarrow> Portal \<Rightarrow> Portal" where
  "handleConfigSelect config w = w\<lparr>currentConfig := Some config\<rparr>"

definition startTest :: "Portal \<Rightarrow> Portal" where
  "startTest w =
     (case currentConfig w of
        None \<Rightarrow> w
      | Some config \<Rightarrow>
          if initialFromBank config (questionBank (core w)) \<noteq> []
          then callLoader config (handleStartTest config []) w
          else w\<lparr>firstFetches := firstFetches w @ [config],
                 core := (core w)\<lparr>requested := requested (core w) @ [5]\<rparr>\<rparr>)"

definition startFromFetch :: "TestConfig \<Rightarrow> Question list \<Rightarrow> App \<Rightarrow> App" where
  "startFromFetch config fetchedQs app =
     (let app1 = app\<lparr>questions := fetchedQs\<rparr>
      in if int (length fetchedQs) < totalQuestions config
         then loadMoreQuestions config (int (length fetchedQs)) app1 else app1)"

definition firstFetchReturns :: "nat \<Rightarrow> Question list \<Rightarrow> Portal \<Rightarrow> Portal" where
  "firstFetchReturns n fetchedQs w =
     (case drop n (firstFetches w) of
        [] \<Rightarrow> w
      | config # rest \<Rightarrow>
          callLoader config (startFromFetch config fetchedQs)
            (w\<lparr>firstFetches := take n (firstFetches w) @ rest\<rparr>))"

text \<open>\<open>handleExitTest\<close>, the user having confirmed: the active set is emptied.\<close>

definition handleExitTest :: "Portal \<Rightarrow> Portal" where
  "handleExitTest w = w\<lparr>core := (core w)\<lparr>questions := []\<rparr>\<rparr>"

text \<open>
  The events of the loader in the component: the backup trigger uses the selected
  configuration, a returning or failing call and a timer the configuration they hold.
\<close>

fun loaderStep :: "Event \<Rightarrow> Portal \<Rightarrow> Portal" where
  "loaderStep RequestMore w =
     (case currentConfig w of
        None \<Rightarrow> w
      | Some config \<Rightarrow> callLoader config (handleRequestMoreQuestions config) w)"
| "loaderStep (Returns newQs) w =
     (case loaderConfigs w of
        [] \<Rightarrow> w
      | config # rest \<Rightarrow>
          (let a = batchReturns config newQs (core w)
           in w\<lparr>core := a, loaderConfigs := rest,
                timerConfigs :=
                  timerConfigs w @ replicate (length (timers a) - length (timers (core w))) config\<rparr>))"
| "loaderStep Throws w =
     (case loaderConfigs w of
        [] \<Rightarrow> w
      | config # rest \<Rightarrow> w\<lparr>core := batchThrows (core w), loaderConfigs := rest\<rparr>)"
| "loaderStep TimerFires w =
     (case timerConfigs w of
        [] \<Rightarrow> w
      | config # rest \<Rightarrow> callLoader config (timerFires config) (w\<lparr>timerConfigs := rest\<rparr>))"

text \<open>What can happen after mount, in any order.\<close>

datatype Action =
    CacheLoaded "Question list"
  | PreloadReturns Subject "Question list"
  | ConfigSelect TestConfig
  | StartTest
  | FirstFetchReturns nat "Question list"
  | Loader Event
  | ExitTest

fun act :: "Action \<Rightarrow> Portal \<Rightarrow> Portal" where
  "act (CacheLoaded cached) w = cacheLoaded cached w"
| "act (PreloadReturns s qs) w = preloadReturns s qs w"
| "act (ConfigSelect config) w = handleConfigSelect config w"
| "act StartTest w = startTest w"
| "act (FirstFetchReturns n fetchedQs) w = firstFetchReturns n fetchedQs w"
| "act (Loader e) w = loaderStep e w"
| "act ExitTest w = handleExitTest w"

fun acts :: "Action list \<Rightarrow> Portal \<Rightarrow> Portal" where
  "acts [] w = w"
| "acts (a # as) w = acts as (act a w)"

subsection \<open>What the theorems about the loader speak of\<close>

text \<open>
  A state in which the loader is at rest: the latch is clear, no call is in flight and
  no timer is set. This is the state of the component when it is mounted.
\<close>

definition quiescent :: "App \<Rightarrow> bool" where
  "quiescent app \<longleftrightarrow> \<not> isFetching app \<and> pending app = [] \<and> timers app = []"

text \<open>
  The invariant of a session: at most one call is in flight, and then the latch is set,
  no timer is pending and the batch size asked for is \<open>min(total - loaded, 5)\<close>; at most
  one timer is pending, and then the latch is set, no call is in flight and the timer
  holds the current count, which is short of the total.
\<close>

definition loaderInv :: "TestConfig \<Rightarrow> App \<Rightarrow> bool" where
  "loaderInv config app \<longleftrightarrow>
     (pending app = [] \<or>
        (pending app = [min (totalQuestions config - int (length (questions app))) 5] \<and>
         int (length (questions app)) < totalQuestions config \<and>
         isFetching app \<and> timers app = [])) \<and>
     (timers app = [] \<or>
        (timers app = [int (length (questions app))] \<and>
         int (length (questions app)) < totalQuestions config \<and>
         isFetching app \<and> pending app = []))"






section \<open>Concrete inputs of the examples\<close>

text \<open>
  A session over the three fallback questions: the first is answered correctly, the
  second wrongly, the third is untouched; one second is left on the clock.
\<close>

definition demoResponses :: Responses where
  "demoResponses =
     [(''fb-1'', \<lparr>questionId = Some ''fb-1'', selectedOption = Chosen 3, status = Some Answered,
                  timeSpentSeconds = Some 42, visited = Some True, isBookmarked = Some True\<rparr>),
      (''fb-2'', \<lparr>questionId = Some ''fb-2'', selectedOption = Chosen 0, status = Some AnsweredAndMarked,
                  timeSpentSeconds = Some 7, visited = Some True, isBookmarked = Some False\<rparr>),
      (''fb-3'', initialResponse ''fb-3'')]"

definition demoSession :: Session where
  "demoSession = \<lparr>currentQuestionIndex = 0, responses = demoResponses, timeLeft = 1, isPaused = False\<rparr>"

text \<open>
  The first run of the application without a key: the preload fills the bank, and the
  full mock test (the first card of the dashboard) is started and shown.
\<close>

definition noKeyEnv :: Env where
  "noKeyEnv = \<lparr>API_KEY = None, generateContent = (\<lambda>_. Rejects),
               dateNow = (\<lambda>_. ''0''), randomDigits = (\<lambda>_. ''0'')\<rparr>"

definition fullMockConfig :: TestConfig where
  "fullMockConfig =
     \<lparr>mode = Full, totalQuestions = 100, durationMinutes = 90,
      selectedSubjects = [Mathematics, Reasoning, GeneralAwareness], selectedTopic = None\<rparr>"

definition firstRunApp :: App where
  "firstRunApp = handleStartTest fullMockConfig [] (preloadQuestions noKeyEnv initialApp)"

definition firstRunSession :: Session where
  "firstRunSession =
     \<lparr>currentQuestionIndex = 0, responses = syncResponses (questions firstRunApp) [],
      timeLeft = 90 * 60, isPaused = False\<rparr>"

text \<open>A stored snapshot as the persistence effect writes it.\<close>

definition demoSnapshot :: string where
  "demoSnapshot = ''{\"responses\":{},\"timeLeft\":5400,\"timestamp\":1700000000000}''"

text \<open>
  A custom test of five questions, an environment with a key whose provider gives a
  fixed result, and three provider texts: a JSON array wrapped in prose and code fences,
  the same with a bracket in the prose, and an array of two questions.
\<close>

definition demoConfig :: TestConfig where
  "demoConfig =
     \<lparr>mode = Custom, totalQuestions = 5, durationMinutes = 5,
      selectedSubjects = [Mathematics], selectedTopic = None\<rparr>"

definition answeringEnv :: "ProviderResult \<Rightarrow> Env" where
  "answeringEnv r =
     \<lparr>API_KEY = Some ''key'', generateContent = (\<lambda>_. r),
      dateNow = (\<lambda>_. ''1700000000000''), randomDigits = (\<lambda>i. replicate (Suc i) (CHR ''z''))\<rparr>"

definition wrappedAnswer :: string where
  "wrappedAnswer = ''Here you go:\<newline>```json\<newline>[{\"text\": \"Q1\", \"correctAnswer\": 2}]\<newline>```\<newline>Good luck!''"

definition bracketInProse :: string where
  "bracketInProse = ''Here is the list [RRB NTPC]:\<newline>```json\<newline>[{\"text\": \"Q1\", \"correctAnswer\": 2}]\<newline>```''"

definition twoForOne :: string where
  "twoForOne = ''[{\"text\": \"Q1\"}, {\"text\": \"Q2\"}]''"

text \<open>
  Questions that differ in their id only, a custom test of ten questions, a bank that
  holds five questions of its subject, and one that holds four.
\<close>

definition sample :: "string \<Rightarrow> Question" where
  "sample i = (FALLBACK_QUESTIONS ! 0)\<lparr>qId := i\<rparr>"

definition customTen :: TestConfig where
  "customTen =
     \<lparr>mode = Custom, totalQuestions = 10, durationMinutes = 9,
      selectedSubjects = [Mathematics], selectedTopic = None\<rparr>"

definition firstFive :: "Question list" where
  "firstFive = map sample [''gen-a'', ''gen-b'', ''gen-c'', ''gen-d'', ''gen-e'']"

definition nextFive :: "Question list" where
  "nextFive = map sample [''gen-f'', ''gen-g'', ''gen-h'', ''gen-i'', ''gen-j'']"

definition warmApp :: App where
  "warmApp = initialApp\<lparr>questionBank := (\<lambda>s. if s = Mathematics then firstFive else [])\<rparr>"

definition fourBanked :: App where
  "fourBanked =
     initialApp\<lparr>questionBank :=
       (\<lambda>s. if s = Mathematics then map sample [''gen-a'', ''gen-b'', ''gen-c'', ''gen-d''] else [])\<rparr>"






text \<open>A provider text whose array holds a fence marker inside a string.\<close>

definition markerInString :: string where
  "markerInString = ''[{\"text\": \"a```b\"}]''"

section \<open>Auxiliary facts\<close>

subsection \<open>The parser consumes input\<close>

lemma dropWhile_shorter: "takeWhile P xs \<noteq> [] \<Longrightarrow> length (dropWhile P xs) < length xs"
  by (cases xs) (auto simp: le_imp_less_Suc length_dropWhile_le split: if_splits)

lemma parseNumber_shorter:
  assumes "parseNumber s = Some (x, r)"
  shows "length r < length s"
proof -
  define neg where "neg = (case s of c # _ \<Rightarrow> c = CHR ''-'' | [] \<Rightarrow> False)"
  define s1 where "s1 = (if neg then tl s else s)"
  define s2 where "s2 = dropWhile isDigit s1"
  define hasFrac where "hasFrac = (case s2 of c # _ \<Rightarrow> c = CHR ''.'' | [] \<Rightarrow> False)"
  define s3 where "s3 = (if hasFrac then dropWhile isDigit (tl s2) else s2)"
  define hasExp where "hasExp = (case s3 of c # _ \<Rightarrow> c = CHR ''e'' \<or> c = CHR ''E'' | [] \<Rightarrow> False)"
  define s4 where "s4 = (if hasExp then tl s3 else s3)"
  define expSign where "expSign = (hasExp \<and> (case s4 of c # _ \<Rightarrow> c = CHR ''-'' \<or> c = CHR ''+'' | [] \<Rightarrow> False))"
  define s5 where "s5 = (if expSign then tl s4 else s4)"
  define s6 where "s6 = (if hasExp then dropWhile isDigit s5 else s3)"
  from assms have ds: "takeWhile isDigit s1 \<noteq> []" and r: "r = s6"
    unfolding parseNumber_def Let_def neg_def [symmetric] s1_def [symmetric] s2_def [symmetric]
      hasFrac_def [symmetric] s3_def [symmetric] hasExp_def [symmetric] s4_def [symmetric]
      expSign_def [symmetric] s5_def [symmetric] s6_def [symmetric]
    by (auto split: if_splits)
  have l1: "length s1 \<le> length s" by (simp add: s1_def)
  have l2: "length s2 < length s1" unfolding s2_def using ds by (rule dropWhile_shorter)
  have l3: "length s3 \<le> length s2"
    unfolding s3_def using length_dropWhile_le [of isDigit "tl s2"] by auto
  have l4: "length s4 \<le> length s3" by (simp add: s4_def)
  have l5: "length s5 \<le> length s4" by (simp add: s5_def)
  have l6: "length s6 \<le> length s3"
    unfolding s6_def using length_dropWhile_le [of isDigit s5] l5 l4 by auto
  show ?thesis unfolding r using l1 l2 l3 l6 by linarith
qed

lemma parse_shorter:
  "(\<forall>v r. parseValue s = Some (v, r) \<longrightarrow> length r < length s)"
  "(\<forall>vs r. parseElements s1 acc1 = Some (vs, r) \<longrightarrow> length r < length s1)"
  "(\<forall>ms r. parseMembers s2 acc2 = Some (ms, r) \<longrightarrow> length r < length s2)"
proof (induction s and s1 acc1 and s2 acc2 rule: parseValue_parseElements_parseMembers.induct)
  case (1 s)
  show ?case
  proof (intro allI impI)
    fix v r assume a: "parseValue s = Some (v, r)"
    then obtain c t where sk: "skipWs s = c # t"
      by (subst (asm) parseValue.simps) (auto split: list.splits)
    have lt: "length t < length s" using skipWs_Cons_length [OF sk] .
    consider (obj) "c = CHR ''{''" | (arr) "c \<noteq> CHR ''{''" "c = CHR ''[''"
      | (str) "c \<noteq> CHR ''{''" "c \<noteq> CHR ''[''" "c = CHR 0x22"
      | (other) "c \<noteq> CHR ''{''" "c \<noteq> CHR ''[''" "c \<noteq> CHR 0x22" by blast
    then show "length r < length s"
    proof cases
      case obj
      from a sk obj obtain d t' where sk2: "skipWs t = d # t'"
        by (subst (asm) parseValue.simps) (auto split: list.splits)
      show ?thesis
      proof (cases "d = CHR ''}''")
        case True
        with a sk obj sk2 have "r = t'" by (subst (asm) parseValue.simps) simp
        with skipWs_Cons_length [OF sk2] lt show ?thesis by simp
      next
        case False
        with a sk obj sk2 obtain ms where "parseMembers t [] = Some (ms, r)"
          by (subst (asm) parseValue.simps) (auto split: option.splits)
        with 1(1) [OF sk obj sk2 False] have "length r < length t" by blast
        with lt show ?thesis by simp
      qed
    next
      case arr
      from a sk arr obtain d t' where sk2: "skipWs t = d # t'"
        by (subst (asm) parseValue.simps) (auto split: list.splits)
      show ?thesis
      proof (cases "d = CHR '']''")
        case True
        with a sk arr sk2 have "r = t'" by (subst (asm) parseValue.simps) simp
        with skipWs_Cons_length [OF sk2] lt show ?thesis by simp
      next
        case False
        with a sk arr sk2 obtain vs where "parseElements t [] = Some (vs, r)"
          by (subst (asm) parseValue.simps) (auto split: option.splits)
        with 1(2) [OF sk arr(1) arr(2) sk2 False] have "length r < length t" by blast
        with lt show ?thesis by simp
      qed
    next
      case str
      with a sk obtain x where "parseString t [] = Some (x, r)"
        by (subst (asm) parseValue.simps) (auto split: option.splits)
      from parseString_shorter [OF this] lt show ?thesis by simp
    next
      case other
      have len: "length (c # t) \<le> length s"
        using sk skipWs_length [of s] by (metis)
      from a sk other have
        "(take 4 (c # t) = ''true'' \<and> r = drop 4 (c # t)) \<or>
         (take 5 (c # t) = ''false'' \<and> r = drop 5 (c # t)) \<or>
         (take 4 (c # t) = ''null'' \<and> r = drop 4 (c # t)) \<or>
         (\<exists>x. parseNumber (c # t) = Some (x, r))"
        by (subst (asm) parseValue.simps) (auto split: if_splits option.splits)
      then have "length r < length (c # t)"
        using parseNumber_shorter [of "c # t" _ r] by auto
      with len show ?thesis by simp
    qed
  qed
next
  case (2 s acc)
  show ?case
  proof (intro allI impI)
    fix vs r assume a: "parseElements s acc = Some (vs, r)"
    then obtain v u where pv: "parseValue s = Some (v, u)" and g: "length u < length s"
      by (subst (asm) parseElements.simps) (auto split: option.splits if_splits)
    from a pv g obtain d u' where sk: "skipWs u = d # u'"
      by (subst (asm) parseElements.simps) (auto split: list.splits)
    have lu: "length u' < length u" using skipWs_Cons_length [OF sk] .
    show "length r < length s"
    proof (cases "d = CHR '',''")
      case True
      with a pv g sk have "parseElements u' (acc @ [v]) = Some (vs, r)"
        by (subst (asm) parseElements.simps) simp
      with 2(2) [OF pv _ g sk True] have "length r < length u'" by simp
      with lu g show ?thesis by simp
    next
      case False
      with a pv g sk have "r = u'"
        by (subst (asm) parseElements.simps) (auto split: if_splits)
      with lu g show ?thesis by simp
    qed
  qed
next
  case (3 s acc)
  show ?case
  proof (intro allI impI)
    fix ms r assume a: "parseMembers s acc = Some (ms, r)"
    then obtain q t where sk: "skipWs s = q # t" and q: "q = CHR 0x22"
      by (subst (asm) parseMembers.simps) (auto split: list.splits if_splits)
    from a sk q obtain k t1 where ps: "parseString t [] = Some (k, t1)"
      by (subst (asm) parseMembers.simps) (auto split: option.splits)
    from a sk q ps obtain c t2 where sk1: "skipWs t1 = c # t2" and c: "c = CHR '':''"
      by (subst (asm) parseMembers.simps) (auto split: list.splits if_splits)
    from a sk q ps sk1 c obtain v t3 where pv: "parseValue t2 = Some (v, t3)"
      and g: "length t3 < length t2"
      by (subst (asm) parseMembers.simps) (auto split: option.splits if_splits)
    from a sk q ps sk1 c pv g obtain d t4 where sk3: "skipWs t3 = d # t4"
      by (subst (asm) parseMembers.simps) (auto split: list.splits)
    have chain: "length t4 < length s"
      using skipWs_Cons_length [OF sk] parseString_shorter [OF ps] skipWs_Cons_length [OF sk1]
        g skipWs_Cons_length [OF sk3] by linarith
    show "length r < length s"
    proof (cases "d = CHR '',''")
      case True
      with a sk q ps sk1 c pv g sk3 have "parseMembers t4 (acc @ [(k, v)]) = Some (ms, r)"
        by (subst (asm) parseMembers.simps) simp
      with 3(2) [OF sk q ps _ sk1 c pv _ g sk3 True] have "length r < length t4" by simp
      with chain show ?thesis by simp
    next
      case False
      with a sk q ps sk1 c pv g sk3 have "r = t4"
        by (subst (asm) parseMembers.simps) (auto split: if_splits)
      with chain show ?thesis by simp
    qed
  qed
qed

subsection \<open>Counting\<close>

lemma count_values_card:
  "distinct (map fst R) \<Longrightarrow>
   length (filter P (map snd R)) = card {k \<in> dom (map_of R). P (the (map_of R k))}"
proof (induction R)
  case Nil
  then show ?case by simp
next
  case (Cons a R)
  obtain k v where a: "a = (k, v)" by (cases a)
  from Cons.prems a have knotin: "k \<notin> fst ` set R" and dR: "distinct (map fst R)" by auto
  have kdom: "k \<notin> dom (map_of R)" using knotin by (simp add: dom_map_of_conv_image_fst)
  let ?S = "{x \<in> dom (map_of R). P (the (map_of R x))}"
  have fin: "finite ?S" by (simp add: finite_dom_map_of)
  have kS: "k \<notin> ?S" using kdom by simp
  have eq: "{x \<in> dom (map_of (a # R)). P (the (map_of (a # R) x))} =
            (if P v then insert k ?S else ?S)"
    using kdom a by (auto split: if_splits)
  show ?case
    using Cons.IH [OF dR] fin kS a unfolding eq by simp
qed

lemma foldl_count:
  "foldl (\<lambda>acc q. case m (f q) of None \<Rightarrow> acc | Some r \<Rightarrow> acc + (if p r q then 1 else 0)) a Q =
   a + int (length (filter (\<lambda>q. \<exists>r. m (f q) = Some r \<and> p r q) Q))"
  by (induction Q arbitrary: a) (auto split: option.splits)

lemma toFixed2_hundredth: "\<exists>n::int. toFixed2 x = of_int n / 100"
  unfolding toFixed2_def
  by (metis minus_divide_left of_int_minus)

lemma toFixed2_near: "\<bar>toFixed2 x - x\<bar> \<le> 1 / 200"
proof (cases "x < 0")
  case True
  let ?y = "(- x) * 100 + 1 / 2"
  have "of_int \<lfloor>?y\<rfloor> \<le> ?y" "?y < of_int \<lfloor>?y\<rfloor> + 1" by linarith+
  then show ?thesis using True unfolding toFixed2_def by (simp add: field_simps abs_if)
next
  case False
  let ?y = "x * 100 + 1 / 2"
  have "of_int \<lfloor>?y\<rfloor> \<le> ?y" "?y < of_int \<lfloor>?y\<rfloor> + 1" by linarith+
  then show ?thesis using False unfolding toFixed2_def by (simp add: field_simps abs_if)
qed

lemma demo_current: "questionAt FALLBACK_QUESTIONS (currentQuestionIndex demoSession) = Some (FALLBACK_QUESTIONS ! 0)"
  by (simp add: questionAt_def demoSession_def FALLBACK_QUESTIONS_def)

lemma demo_ids: "map qId FALLBACK_QUESTIONS = [''fb-1'', ''fb-2'', ''fb-3'']"
  "map correctAnswer FALLBACK_QUESTIONS = [3, 2, 2]"
  by (simp_all add: FALLBACK_QUESTIONS_def)

lemma demo_record:
  "map_of (responses demoSession) (qId (FALLBACK_QUESTIONS ! 0)) =
     Some \<lparr>questionId = Some ''fb-1'', selectedOption = Chosen 3, status = Some Answered,
           timeSpentSeconds = Some 42, visited = Some True, isBookmarked = Some True\<rparr>"
  by (simp add: demoSession_def demoResponses_def FALLBACK_QUESTIONS_def)

subsection \<open>Strings\<close>

lemma set_deleteAll: "set (deleteAll pat s) \<subseteq> set s"
proof (induction pat s rule: deleteAll.induct)
  case (1 pat)
  then show ?case by simp
next
  case (2 pat c cs)
  show ?case
  proof (cases "pat \<noteq> [] \<and> take (length pat) (c # cs) = pat")
    case True
    with 2(1) have "set (deleteAll pat (drop (length pat) (c # cs))) \<subseteq> set (drop (length pat) (c # cs))"
      by simp
    also have "\<dots> \<subseteq> set (c # cs)" by (rule set_drop_subset)
    finally show ?thesis using True by simp
  next
    case False
    with 2(2) show ?thesis by auto
  qed
qed

lemma take_append_char_neq:
  assumes "c \<notin> set pat" "pat \<noteq> []"
  shows "take (length pat) (zs @ c # ys) = pat \<longleftrightarrow> take (length pat) zs = pat"
proof (cases "length pat \<le> length zs")
  case True
  then show ?thesis by simp
next
  case False
  then have lt: "length zs < length pat" by simp
  have "take (length pat) zs \<noteq> pat"
  proof
    assume "take (length pat) zs = pat"
    then have "length (take (length pat) zs) = length pat" by simp
    with lt show False by simp
  qed
  moreover have "take (length pat) (zs @ c # ys) \<noteq> pat"
  proof
    assume eq: "take (length pat) (zs @ c # ys) = pat"
    from lt have "c \<in> set (take (length pat) (zs @ c # ys))"
      by (simp add: take_Cons')
    with eq assms(1) show False by simp
  qed
  ultimately show ?thesis by simp
qed

lemma deleteAll_append_char:
  "c \<notin> set pat \<Longrightarrow> deleteAll pat (xs @ c # ys) = deleteAll pat xs @ c # deleteAll pat ys"
proof (induction pat xs rule: deleteAll.induct)
  case (1 pat)
  have "\<not> (pat \<noteq> [] \<and> take (length pat) (c # ys) = pat)"
  proof (rule notI, elim conjE)
    assume ne: "pat \<noteq> []" and eq: "take (length pat) (c # ys) = pat"
    from ne obtain p ps where pat: "pat = p # ps" by (cases pat) auto
    from eq have "hd pat = c" unfolding pat by simp
    then have "c \<in> set pat" unfolding pat by simp
    with 1 show False by simp
  qed
  then show ?case by auto
next
  case (2 pat x xs)
  show ?case
  proof (cases "pat \<noteq> [] \<and> take (length pat) (x # xs) = pat")
    case True
    then have big: "take (length pat) ((x # xs) @ c # ys) = pat"
      using take_append_char_neq [of c pat "x # xs" ys] 2(3) by simp
    from True have "length (take (length pat) (x # xs)) = length pat" by simp
    then have len: "length pat \<le> length (x # xs)"
      unfolding length_take by linarith
    have "deleteAll pat ((x # xs) @ c # ys) = deleteAll pat (drop (length pat) ((x # xs) @ c # ys))"
      using True big by simp
    also have "drop (length pat) ((x # xs) @ c # ys) = drop (length pat) (x # xs) @ c # ys"
      unfolding drop_append using len by simp
    also have "deleteAll pat (drop (length pat) (x # xs) @ c # ys) =
               deleteAll pat (drop (length pat) (x # xs)) @ c # deleteAll pat ys"
      using 2(1) True 2(3) by simp
    also have "deleteAll pat (drop (length pat) (x # xs)) = deleteAll pat (x # xs)"
      using True by simp
    finally show ?thesis .
  next
    case False
    then have nobig: "\<not> (pat \<noteq> [] \<and> take (length pat) ((x # xs) @ c # ys) = pat)"
      using take_append_char_neq [of c pat "x # xs" ys] 2(3) by auto
    have "deleteAll pat ((x # xs) @ c # ys) = x # deleteAll pat (xs @ c # ys)"
      using nobig by auto
    also have "\<dots> = x # deleteAll pat xs @ c # deleteAll pat ys"
      using 2(2) False 2(3) by simp
    also have "\<dots> = deleteAll pat (x # xs) @ c # deleteAll pat ys"
      using False by auto
    finally show ?thesis .
  qed
qed

lemma indexOf_range: "indexOf c s = - 1 \<or> (0 \<le> indexOf c s \<and> indexOf c s < int (length s))"
  by (induction s) (auto simp: Let_def)

lemma indexOf_absent: "c \<notin> set s \<Longrightarrow> indexOf c s = - 1"
  by (induction s) (auto simp: Let_def)

lemma indexOf_first: "c \<notin> set P \<Longrightarrow> indexOf c (P @ c # R) = int (length P)"
  by (induction P) (auto simp: Let_def)

lemma lastIndexOf_last: "c \<notin> set Q \<Longrightarrow> lastIndexOf c (X @ c # Q) = int (length X)"
  using indexOf_first [of c "rev Q" "rev X"] by (simp add: lastIndexOf_def Let_def)

lemma extractArrayText_bracketed:
  assumes "CHR ''['' \<notin> set P" "CHR '']'' \<notin> set Q"
  shows "extractArrayText (P @ CHR ''['' # M @ CHR '']'' # Q) = Some (CHR ''['' # M @ [CHR '']''])"
proof -
  have f: "indexOf (CHR ''['') (P @ CHR ''['' # M @ CHR '']'' # Q) = int (length P)"
    using assms(1) by (rule indexOf_first)
  have "lastIndexOf (CHR '']'') ((P @ CHR ''['' # M) @ CHR '']'' # Q) = int (length (P @ CHR ''['' # M))"
    using assms(2) by (rule lastIndexOf_last)
  then have l: "lastIndexOf (CHR '']'') (P @ CHR ''['' # M @ CHR '']'' # Q) = int (length P) + 1 + int (length M)"
    by simp
  have n: "nat (int (length P) + 1 + int (length M) + 1 - int (length P)) = Suc (Suc (length M))"
    by simp
  have d: "drop (nat (int (length P))) (P @ CHR ''['' # M @ CHR '']'' # Q) = CHR ''['' # M @ CHR '']'' # Q"
    by simp
  have t: "take (Suc (Suc (length M))) (CHR ''['' # M @ CHR '']'' # Q) = CHR ''['' # M @ [CHR '']'']"
    by simp
  show ?thesis
    unfolding extractArrayText_def f l Let_def substring_def n d t by simp
qed

lemma indexOf_append_prefix:
  "c \<notin> set P \<Longrightarrow>
   indexOf c (P @ s) = (if indexOf c s = - 1 then - 1 else int (length P) + indexOf c s)"
  using indexOf_range [of c s] by (induction P) (auto simp: Let_def)

lemma indexOf_append_suffix: "c \<notin> set Q \<Longrightarrow> indexOf c (s @ Q) = indexOf c s"
  by (induction s) (auto simp: Let_def indexOf_absent)

lemma lastIndexOf_range:
  "lastIndexOf c s = - 1 \<or> (0 \<le> lastIndexOf c s \<and> lastIndexOf c s < int (length s))"
  using indexOf_range [of c "rev s"] by (auto simp: lastIndexOf_def Let_def)

lemma lastIndexOf_strip:
  assumes "c \<notin> set P" "c \<notin> set Q"
  shows "lastIndexOf c (P @ s @ Q) =
           (if lastIndexOf c s = - 1 then - 1 else int (length P) + lastIndexOf c s)"
proof -
  have "indexOf c (rev (P @ s @ Q)) = indexOf c (rev Q @ (rev s @ rev P))" by simp
  also have "\<dots> = (if indexOf c (rev s @ rev P) = - 1 then - 1
                   else int (length (rev Q)) + indexOf c (rev s @ rev P))"
    using assms(2) by (intro indexOf_append_prefix) simp
  also have "indexOf c (rev s @ rev P) = indexOf c (rev s)"
    using assms(1) by (intro indexOf_append_suffix) simp
  finally have i: "indexOf c (rev (P @ s @ Q)) =
      (if indexOf c (rev s) = - 1 then - 1 else int (length Q) + indexOf c (rev s))"
    by simp
  show ?thesis
    unfolding lastIndexOf_def Let_def i using indexOf_range [of c "rev s"] by auto
qed

lemma extractArrayText_strip:
  assumes P: "CHR ''['' \<notin> set P" "CHR '']'' \<notin> set P"
    and Q: "CHR ''['' \<notin> set Q" "CHR '']'' \<notin> set Q"
  shows "extractArrayText (P @ s @ Q) = extractArrayText s"
proof -
  let ?fo = "indexOf (CHR ''['') s" and ?lc = "lastIndexOf (CHR '']'') s"
  have "indexOf (CHR ''['') (P @ (s @ Q)) =
          (if indexOf (CHR ''['') (s @ Q) = - 1 then - 1
           else int (length P) + indexOf (CHR ''['') (s @ Q))"
    using P(1) by (rule indexOf_append_prefix)
  then have fo: "indexOf (CHR ''['') (P @ s @ Q) = (if ?fo = - 1 then - 1 else int (length P) + ?fo)"
    using indexOf_append_suffix [OF Q(1), of s] by simp
  have lc: "lastIndexOf (CHR '']'') (P @ s @ Q) = (if ?lc = - 1 then - 1 else int (length P) + ?lc)"
    using P(2) Q(2) by (rule lastIndexOf_strip)
  show ?thesis
  proof (cases "?fo \<noteq> - 1 \<and> ?lc \<noteq> - 1 \<and> ?lc > ?fo")
    case False
    then show ?thesis
      unfolding extractArrayText_def Let_def fo lc
      using indexOf_range [of "CHR ''[''" s] lastIndexOf_range [of "CHR '']''" s] by auto
  next
    case True
    with indexOf_range [of "CHR ''[''" s] lastIndexOf_range [of "CHR '']''" s]
    have r: "0 \<le> ?fo" "?fo < ?lc" "?lc < int (length s)" by auto
    define a where "a = nat ?fo"
    define n where "n = nat (?lc + 1 - ?fo)"
    have an: "a + n \<le> length s" using r by (simp add: a_def n_def)
    have idx: "nat (int (length P) + ?fo) = length P + a"
      using r by (simp add: a_def nat_add_distrib)
    have n': "nat (int (length P) + ?lc + 1 - (int (length P) + ?fo)) = n"
      by (simp add: n_def)
    have sub: "substring (int (length P) + ?fo) (int (length P) + ?lc + 1) (P @ s @ Q) =
               take n (drop a s)"
      unfolding substring_def n' idx using an by simp
    have c: "int (length P) + ?fo \<noteq> - 1" "int (length P) + ?lc \<noteq> - 1"
      "int (length P) + ?lc > int (length P) + ?fo"
      using r by simp_all
    have "extractArrayText (P @ s @ Q) =
            Some (substring (int (length P) + ?fo) (int (length P) + ?lc + 1) (P @ s @ Q))"
      unfolding extractArrayText_def Let_def fo lc using True c by (simp only: simp_thms if_True if_False)
    then have "extractArrayText (P @ s @ Q) = Some (take n (drop a s))"
      unfolding sub .
    moreover have "extractArrayText s = Some (take n (drop a s))"
      unfolding extractArrayText_def Let_def substring_def using True
      by (simp add: a_def n_def)
    ultimately show ?thesis by simp
  qed
qed

lemma trim_decompose:
  "\<exists>P Q. s = P @ trim s @ Q \<and> (\<forall>c \<in> set P. isSpace c) \<and> (\<forall>c \<in> set Q. isSpace c)"
proof -
  define t where "t = dropWhile isSpace s"
  have 1: "s = takeWhile isSpace s @ t" by (simp add: t_def)
  have "rev t = takeWhile isSpace (rev t) @ dropWhile isSpace (rev t)" by simp
  then have "t = rev (dropWhile isSpace (rev t)) @ rev (takeWhile isSpace (rev t))"
    by (metis rev_append rev_rev_ident)
  then have 2: "t = trim s @ rev (takeWhile isSpace (rev t))"
    by (simp add: trim_def t_def)
  have "s = takeWhile isSpace s @ trim s @ rev (takeWhile isSpace (rev t))"
    using 1 2 by simp
  moreover have "\<forall>c \<in> set (takeWhile isSpace s). isSpace c"
    by (meson set_takeWhileD)
  moreover have "\<forall>c \<in> set (rev (takeWhile isSpace (rev t))). isSpace c"
    by (metis set_rev set_takeWhileD)
  ultimately show ?thesis by blast
qed

lemma extractArrayText_trim: "extractArrayText (trim s) = extractArrayText s"
proof -
  from trim_decompose [of s] obtain P Q where
    s: "s = P @ trim s @ Q" and P: "\<forall>c \<in> set P. isSpace c" and Q: "\<forall>c \<in> set Q. isSpace c"
    by blast
  have nb: "\<not> isSpace (CHR ''['')" "\<not> isSpace (CHR '']'')" by (simp_all add: isSpace_def)
  have "extractArrayText (P @ trim s @ Q) = extractArrayText (trim s)"
    using P Q nb by (intro extractArrayText_strip) blast+
  with s show ?thesis by simp
qed

lemma deleteAll_span:
  assumes "CHR ''['' \<notin> set pat" "CHR '']'' \<notin> set pat"
  shows "deleteAll pat (pre @ CHR ''['' # mid @ CHR '']'' # post) =
           deleteAll pat pre @ CHR ''['' # deleteAll pat mid @ CHR '']'' # deleteAll pat post"
proof -
  have "deleteAll pat (pre @ CHR ''['' # (mid @ CHR '']'' # post)) =
          deleteAll pat pre @ CHR ''['' # deleteAll pat (mid @ CHR '']'' # post)"
    using assms(1) by (rule deleteAll_append_char)
  moreover have "deleteAll pat (mid @ CHR '']'' # post) =
          deleteAll pat mid @ CHR '']'' # deleteAll pat post"
    using assms(2) by (rule deleteAll_append_char)
  ultimately show ?thesis by simp
qed

lemma cleanResponse_span:
  assumes pre: "CHR ''['' \<notin> set pre" and post: "CHR '']'' \<notin> set post"
  shows "extractArrayText (cleanResponse (pre @ CHR ''['' # mid @ CHR '']'' # post)) =
           Some (CHR ''['' # deleteAll ''```'' (deleteAll ''```json'' mid) @ [CHR '']''])"
proof -
  define P where "P = deleteAll ''```'' (deleteAll ''```json'' pre)"
  define Q where "Q = deleteAll ''```'' (deleteAll ''```json'' post)"
  define M where "M = deleteAll ''```'' (deleteAll ''```json'' mid)"
  have s: "deleteAll ''```'' (deleteAll ''```json'' (pre @ CHR ''['' # mid @ CHR '']'' # post)) =
        P @ CHR ''['' # M @ CHR '']'' # Q"
    unfolding P_def Q_def M_def by (simp add: deleteAll_span)
  have Pb: "CHR ''['' \<notin> set P"
    using pre set_deleteAll [of "''```''" "deleteAll ''```json'' pre"] set_deleteAll [of "''```json''" pre]
    unfolding P_def by blast
  have Qb: "CHR '']'' \<notin> set Q"
    using post set_deleteAll [of "''```''" "deleteAll ''```json'' post"] set_deleteAll [of "''```json''" post]
    unfolding Q_def by blast
  have "extractArrayText (cleanResponse (pre @ CHR ''['' # mid @ CHR '']'' # post)) =
          extractArrayText (P @ CHR ''['' # M @ CHR '']'' # Q)"
    unfolding cleanResponse_def s by (rule extractArrayText_trim)
  also have "\<dots> = Some (CHR ''['' # M @ [CHR '']''])"
    using Pb Qb by (rule extractArrayText_bracketed)
  finally show ?thesis unfolding M_def .
qed

lemma hasSpan_decompose:
  "hasSpan s \<longleftrightarrow> (\<exists>pre mid post. s = pre @ CHR ''['' # mid @ CHR '']'' # post)"
proof
  show "hasSpan s \<Longrightarrow> \<exists>pre mid post. s = pre @ CHR ''['' # mid @ CHR '']'' # post"
  proof (induction s)
    case Nil
    then show ?case by simp
  next
    case (Cons c cs)
    show ?case
    proof (cases "c = CHR ''['' \<and> CHR '']'' \<in> set cs")
      case True
      then obtain mid post where "cs = mid @ CHR '']'' # post" by (meson split_list)
      with True have "c # cs = [] @ CHR ''['' # mid @ CHR '']'' # post" by simp
      then show ?thesis by blast
    next
      case False
      with Cons.prems have "hasSpan cs" by auto
      with Cons.IH obtain pre mid post where "cs = pre @ CHR ''['' # mid @ CHR '']'' # post" by blast
      then have "c # cs = (c # pre) @ CHR ''['' # mid @ CHR '']'' # post" by simp
      then show ?thesis by blast
    qed
  qed
next
  assume "\<exists>pre mid post. s = pre @ CHR ''['' # mid @ CHR '']'' # post"
  then obtain pre mid post where s: "s = pre @ CHR ''['' # mid @ CHR '']'' # post" by blast
  show "hasSpan s" unfolding s by (induction pre) simp_all
qed

lemma hasSpan_drop: "hasSpan (drop n s) \<Longrightarrow> hasSpan s"
proof (induction s arbitrary: n)
  case Nil
  then show ?case by simp
next
  case (Cons c cs)
  show ?case
  proof (cases n)
    case 0
    with Cons.prems show ?thesis by simp
  next
    case (Suc m)
    with Cons.prems have "hasSpan (drop m cs)" by simp
    then have "hasSpan cs" by (rule Cons.IH)
    then show ?thesis by simp
  qed
qed

lemma hasSpan_deleteAll: "hasSpan (deleteAll pat s) \<Longrightarrow> hasSpan s"
proof (induction pat s rule: deleteAll.induct)
  case (1 pat)
  then show ?case by simp
next
  case (2 pat c cs)
  show ?case
  proof (cases "pat \<noteq> [] \<and> take (length pat) (c # cs) = pat")
    case True
    with 2(3) have "hasSpan (deleteAll pat (drop (length pat) (c # cs)))" by simp
    with 2(1) True have "hasSpan (drop (length pat) (c # cs))" by simp
    then show ?thesis by (rule hasSpan_drop)
  next
    case False
    with 2(3) have h: "hasSpan (c # deleteAll pat cs)" by auto
    show ?thesis
    proof (cases "hasSpan (deleteAll pat cs)")
      case True
      with 2(2) False have "hasSpan cs" by simp
      then show ?thesis by simp
    next
      case n: False
      with h have "c = CHR ''[''" "CHR '']'' \<in> set (deleteAll pat cs)" by auto
      with set_deleteAll [of pat cs] show ?thesis by auto
    qed
  qed
qed

lemma indexOf_split:
  "indexOf c s \<noteq> - 1 \<Longrightarrow> \<exists>P R. s = P @ c # R \<and> indexOf c s = int (length P)"
proof (induction s)
  case Nil
  then show ?case by simp
next
  case (Cons x xs)
  show ?case
  proof (cases "x = c")
    case True
    then have "x # xs = [] @ c # xs \<and> indexOf c (x # xs) = int (length ([]::string))" by simp
    then show ?thesis by blast
  next
    case False
    with Cons.prems have ne: "indexOf c xs \<noteq> - 1" by (auto simp: Let_def split: if_splits)
    with Cons.IH obtain P R where xs: "xs = P @ c # R" and i: "indexOf c xs = int (length P)" by blast
    from False ne i have "indexOf c (x # xs) = int (length (x # P))" by (simp add: Let_def)
    moreover have "x # xs = (x # P) @ c # R" using xs by simp
    ultimately show ?thesis by blast
  qed
qed

lemma lastIndexOf_split:
  assumes "lastIndexOf c s \<noteq> - 1"
  shows "\<exists>X Q. s = X @ c # Q \<and> lastIndexOf c s = int (length X)"
proof -
  from assms have ne: "indexOf c (rev s) \<noteq> - 1" by (auto simp: lastIndexOf_def Let_def)
  then obtain P R where r: "rev s = P @ c # R" and i: "indexOf c (rev s) = int (length P)"
    using indexOf_split by blast
  from r have "rev (rev s) = rev (P @ c # R)" by simp
  then have s: "s = rev R @ c # rev P" by simp
  have "length s = length R + 1 + length P" unfolding s by simp
  then have "lastIndexOf c s = int (length (rev R))"
    using ne i by (simp add: lastIndexOf_def Let_def)
  with s show ?thesis by blast
qed

lemma extractArrayText_hasSpan:
  assumes "extractArrayText s = Some e"
  shows "hasSpan s"
proof -
  let ?fo = "indexOf (CHR ''['') s" and ?lc = "lastIndexOf (CHR '']'') s"
  from assms have c: "?fo \<noteq> - 1" "?lc \<noteq> - 1" "?lc > ?fo"
    by (auto simp: extractArrayText_def Let_def split: if_splits)
  from indexOf_split [OF c(1)] obtain P R where P: "s = P @ CHR ''['' # R" "?fo = int (length P)"
    by blast
  from lastIndexOf_split [OF c(2)] obtain X Q where X: "s = X @ CHR '']'' # Q" "?lc = int (length X)"
    by blast
  from c(3) P(2) X(2) have lt: "length P < length X" by simp
  have "drop (Suc (length P)) s = R" unfolding P(1) by simp
  moreover have "drop (Suc (length P)) s = drop (Suc (length P)) X @ CHR '']'' # Q"
    unfolding X(1) using lt by simp
  ultimately have "CHR '']'' \<in> set R" by auto
  then show ?thesis unfolding P(1) by (induction P) simp_all
qed

lemma cleanResponse_no_span:
  assumes "\<not> hasSpan t"
  shows "extractArrayText (cleanResponse t) = None"
proof (rule ccontr)
  assume "extractArrayText (cleanResponse t) \<noteq> None"
  then obtain e where "extractArrayText (cleanResponse t) = Some e" by auto
  then have "extractArrayText (deleteAll ''```'' (deleteAll ''```json'' t)) = Some e"
    unfolding cleanResponse_def extractArrayText_trim .
  then have "hasSpan (deleteAll ''```'' (deleteAll ''```json'' t))" by (rule extractArrayText_hasSpan)
  then have "hasSpan (deleteAll ''```json'' t)" by (rule hasSpan_deleteAll)
  then have "hasSpan t" by (rule hasSpan_deleteAll)
  with assms show False by simp
qed

lemma slice0_length: "length (slice0 n xs) \<le> length xs"
  by (auto simp: slice0_def)

lemma slice0_length_nonneg: "0 \<le> n \<Longrightarrow> int (length (slice0 n xs)) \<le> n"
  by (simp add: slice0_def)

lemma withIds_length: "length (withIds env xs) = length xs"
  by (simp add: withIds_def)

subsection \<open>Concrete evaluations\<close>

lemma firstRun_questions:
  "questions firstRunApp = FALLBACK_QUESTIONS @ FALLBACK_QUESTIONS @ FALLBACK_QUESTIONS"
  by (simp add: firstRunApp_def handleStartTest_def preloadQuestions_def initialApp_def
      initialFromBank_def fullMockConfig_def generateQuestions_def noKeyEnv_def truthy_def
      loadMoreQuestions_def Let_def FALLBACK_QUESTIONS_def)

lemma demoSnapshot_parse:
  "JSON_parse demoSnapshot =
     Some (JObject [(''responses'', JObject []), (''timeLeft'', JNumber 5400),
                    (''timestamp'', JNumber 1700000000000)])"
  unfolding demoSnapshot_def by code_simp

lemma wrappedAnswer_span:
  "wrappedAnswer = ''Here you go:\<newline>```json\<newline>'' @
     CHR ''['' # ''{\"text\": \"Q1\", \"correctAnswer\": 2}'' @ CHR '']'' # ''\<newline>```\<newline>Good luck!''"
  by (simp add: wrappedAnswer_def)

lemma demoArray_parse:
  "JSON_parse (CHR ''['' # ''{\"text\": \"Q1\", \"correctAnswer\": 2}'' @ [CHR '']'']) =
     Some (JArray [JObject [(''text'', JString ''Q1''), (''correctAnswer'', JNumber 2)]])"
  by code_simp

lemma markerInString_parts:
  "markerInString = [] @ CHR ''['' # ''{\"text\": \"a```b\"}'' @ CHR '']'' # []"
  by (simp add: markerInString_def)

lemma markerInString_stripped:
  "deleteAll ''```'' (deleteAll ''```json'' ''{\"text\": \"a```b\"}'') = ''{\"text\": \"ab\"}''"
  by simp

lemma markerInString_parse:
  "JSON_parse (CHR ''['' # ''{\"text\": \"ab\"}'' @ [CHR '']'']) =
     Some (JArray [JObject [(''text'', JString ''ab'')]])"
  by code_simp

subsection \<open>The loader\<close>

lemma loadMoreQuestions_inv:
  assumes "pending app = []" "timers app = []" "c = int (length (questions app))"
  shows "loaderInv config (loadMoreQuestions config c app)"
  using assms by (auto simp: loaderInv_def loadMoreQuestions_def Let_def)

lemma handleRequestMoreQuestions_inv:
  assumes "loaderInv config app"
  shows "loaderInv config (handleRequestMoreQuestions config app)"
proof (cases "\<not> isFetching app \<and> int (length (questions app)) < totalQuestions config")
  case True
  with assms have "pending app = []" "timers app = []" by (auto simp: loaderInv_def)
  with True show ?thesis
    using loadMoreQuestions_inv [of app "int (length (questions app))" config]
    by (simp add: handleRequestMoreQuestions_def)
next
  case False
  with assms show ?thesis by (auto simp: handleRequestMoreQuestions_def)
qed

lemma batchReturns_inv:
  assumes "loaderInv config app"
  shows "loaderInv config (batchReturns config newQs app)"
  using assms by (auto simp: loaderInv_def batchReturns_def Let_def split: list.splits)

lemma batchThrows_inv:
  assumes "loaderInv config app"
  shows "loaderInv config (batchThrows app)"
  using assms by (auto simp: loaderInv_def batchThrows_def split: list.splits)

lemma timerFires_inv:
  assumes "loaderInv config app"
  shows "loaderInv config (timerFires config app)"
proof (cases "timers app")
  case Nil
  with assms show ?thesis by (simp add: timerFires_def)
next
  case (Cons c rest)
  with assms have t: "timers app = [int (length (questions app))]" and p: "pending app = []"
    by (auto simp: loaderInv_def)
  with Cons have c: "c = int (length (questions app))" and r: "rest = []" by auto
  show ?thesis
    unfolding timerFires_def Cons list.case c r
    by (rule loadMoreQuestions_inv) (simp_all add: p)
qed

lemma step_inv: "loaderInv config app \<Longrightarrow> loaderInv config (step config e app)"
  by (cases e)
     (simp_all add: handleRequestMoreQuestions_inv batchReturns_inv batchThrows_inv timerFires_inv)

lemma run_inv: "loaderInv config app \<Longrightarrow> loaderInv config (run config es app)"
  by (induction es arbitrary: app) (simp_all add: step_inv)

lemma handleStartTest_inv:
  assumes "quiescent app"
  shows "loaderInv config (handleStartTest config fetchedQs app)"
proof -
  have base: "loaderInv config a" if "pending a = []" "timers a = []" for a
    using that by (simp add: loaderInv_def)
  from assms have q: "pending app = []" "timers app = []" by (simp_all add: quiescent_def)
  define initialQs where "initialQs = initialFromBank config (questionBank app)"
  define hit where "hit = app\<lparr>questionBank := bankAfterStart config (questionBank app),
                            questions := initialQs\<rparr>"
  define miss where "miss = app\<lparr>questions := fetchedQs, requested := requested app @ [5]\<rparr>"
  have h: "loaderInv config hit" "loaderInv config (loadMoreQuestions config (int (length initialQs)) hit)"
    using q by (auto simp: hit_def intro: base loadMoreQuestions_inv)
  have m: "loaderInv config miss" "loaderInv config (loadMoreQuestions config (int (length fetchedQs)) miss)"
    using q by (auto simp: miss_def intro: base loadMoreQuestions_inv)
  show ?thesis
    unfolding handleStartTest_def Let_def initialQs_def [symmetric] hit_def [symmetric]
      miss_def [symmetric]
    using h m by simp
qed

lemma loaderInv_single_flight: "loaderInv config app \<Longrightarrow> length (pending app) \<le> 1"
  by (auto simp: loaderInv_def)

lemma complete_is_stuck:
  assumes "loaderInv config app" "totalQuestions config \<le> int (length (questions app))"
  shows "step config e app = app"
proof -
  from assms have p: "pending app = []" and t: "timers app = []"
    by (auto simp: loaderInv_def)
  with assms(2) show ?thesis
    by (cases e)
       (simp_all add: handleRequestMoreQuestions_def batchReturns_def batchThrows_def timerFires_def)
qed

lemma complete_run_stuck:
  assumes "loaderInv config app" "totalQuestions config \<le> int (length (questions app))"
  shows "run config es app = app"
  using assms by (induction es) (simp_all add: complete_is_stuck)






lemma loadMoreQuestions_questions [simp]:
  "questions (loadMoreQuestions config c app) = questions app"
  by (simp add: loadMoreQuestions_def Let_def)

lemma step_grows: "\<exists>added. questions (step config e app) = questions app @ added"
proof (cases e)
  case RequestMore
  then show ?thesis by (simp add: handleRequestMoreQuestions_def)
next
  case (Returns newQs)
  then show ?thesis
    by (cases "pending app") (simp_all add: batchReturns_def Let_def mergeQuestions_def)
next
  case Throws
  then show ?thesis by (cases "pending app") (simp_all add: batchThrows_def)
next
  case TimerFires
  then show ?thesis by (cases "timers app") (simp_all add: timerFires_def)
qed

lemma mergeQuestions_length:
  "length (mergeQuestions prev newQs) \<le> length prev + length newQs"
  by (simp add: mergeQuestions_def)

lemma mergeQuestions_keeps_count:
  assumes "i \<in> set (map qId prev)"
  shows "count_list (map qId (mergeQuestions prev newQs)) i = count_list (map qId prev) i"
proof -
  have "i \<notin> set (map qId (filter (\<lambda>q. qId q \<notin> set (map qId prev)) newQs))"
  proof
    assume "i \<in> set (map qId (filter (\<lambda>q. qId q \<notin> set (map qId prev)) newQs))"
    then have "i \<in> qId ` {q \<in> set newQs. qId q \<notin> qId ` set prev}" by simp
    then have "i \<notin> qId ` set prev" by auto
    then have "i \<notin> set (map qId prev)" by simp
    with assms show False by simp
  qed
  then have "count_list (map qId (filter (\<lambda>q. qId q \<notin> set (map qId prev)) newQs)) i = 0"
    by (simp add: count_list_0_iff)
  then show ?thesis by (simp add: mergeQuestions_def)
qed

lemma mergeQuestions_distinct:
  assumes "distinct (map qId prev)" "distinct (map qId newQs)"
  shows "distinct (map qId (mergeQuestions prev newQs))"
proof -
  let ?new = "filter (\<lambda>q. qId q \<notin> set (map qId prev)) newQs"
  have d: "distinct (map qId ?new)" using assms(2) by (rule distinct_map_filter)
  have "set (map qId ?new) = qId ` {q \<in> set newQs. qId q \<notin> qId ` set prev}" by simp
  then have disj: "set (map qId prev) \<inter> set (map qId ?new) = {}"
    unfolding set_map by auto (metis imageI)
  show ?thesis
    unfolding mergeQuestions_def map_append distinct_append using assms(1) d disj by simp
qed

lemma batchReturns_questions:
  "questions (batchReturns config newQs app) =
     (if pending app = [] then questions app else mergeQuestions (questions app) newQs)"
  by (cases "pending app") (simp_all add: batchReturns_def Let_def)

lemma batchReturns_within_total:
  assumes inv: "loaderInv config app" and p: "pending app = [b]" and l: "int (length newQs) \<le> b"
  shows "int (length (questions (batchReturns config newQs app))) \<le> totalQuestions config"
proof -
  from inv p have b: "b = min (totalQuestions config - int (length (questions app))) 5"
    by (auto simp: loaderInv_def)
  have "int (length (mergeQuestions (questions app) newQs)) \<le>
          int (length (questions app)) + int (length newQs)"
    using mergeQuestions_length [of "questions app" newQs] by linarith
  with b l p show ?thesis by (simp add: batchReturns_questions)
qed



lemma sample_id [simp]: "qId (sample i) = i"
  by (simp add: sample_def)

lemma twoForOne_batch:
  "generateQuestions (answeringEnv (Responds (Some twoForOne))) demoConfig 1 =
     withIds (answeringEnv (Responds (Some twoForOne)))
       [JObject [(''text'', JString ''Q1'')], JObject [(''text'', JString ''Q2'')]]"
proof -
  have c: "cleanResponse twoForOne = twoForOne"
    unfolding twoForOne_def cleanResponse_def trim_def by (simp add: isSpace_def)
  have e: "extractArrayText twoForOne = Some twoForOne"
    unfolding twoForOne_def extractArrayText_def lastIndexOf_def substring_def by (simp add: Let_def)
  have p: "JSON_parse twoForOne =
             Some (JArray [JObject [(''text'', JString ''Q1'')], JObject [(''text'', JString ''Q2'')]])"
    unfolding twoForOne_def by code_simp
  show ?thesis
    by (simp add: generateQuestions_def tryBlock_def answeringEnv_def truthy_def c e p Let_def)
qed

lemma twoForOne_ids:
  "map qId (generateQuestions (answeringEnv (Responds (Some twoForOne))) demoConfig 1) =
     [''gen-1700000000000-z'', ''gen-1700000000000-zz'']"
  unfolding twoForOne_batch by (simp add: withIds_def genId_def answeringEnv_def eval_nat_numeral)

lemma fourBanked_start:
  "handleStartTest demoConfig [] fourBanked =
     fourBanked\<lparr>questionBank := bankAfterStart demoConfig (questionBank fourBanked),
                questions := map sample [''gen-a'', ''gen-b'', ''gen-c'', ''gen-d''],
                isFetching := True, pending := [1], requested := [1]\<rparr>"
  by (simp add: handleStartTest_def initialFromBank_def demoConfig_def fourBanked_def initialApp_def
      truthy_def loadMoreQuestions_def Let_def)


lemma warmApp_start:
  "handleStartTest customTen [] warmApp =
     warmApp\<lparr>questionBank := bankAfterStart customTen (questionBank warmApp),
              questions := firstFive, isFetching := True, pending := [5], requested := [5]\<rparr>"
  by (simp add: handleStartTest_def initialFromBank_def customTen_def warmApp_def initialApp_def
      truthy_def loadMoreQuestions_def Let_def firstFive_def)


text \<open>
  Nothing releases the latch after the last batch: it is still set when the loading is
  complete, and while it is set neither \<open>loadMoreQuestions\<close> nor the backup trigger
  issues a request.
\<close>

lemma latch_blocks_loader:
  assumes "isFetching app"
  shows "loadMoreQuestions config c app = app \<and> handleRequestMoreQuestions config app = app"
  using assms by (simp add: loadMoreQuestions_def handleRequestMoreQuestions_def)

lemma latch_left_set:
  "isFetching (answerAll customTen [nextFive] (handleStartTest customTen [] warmApp))"
proof -
  have f: "filter (\<lambda>q. qId q \<notin> set (map qId firstFive)) nextFive = nextFive"
    by (simp add: firstFive_def nextFive_def)
  have l: "length firstFive = 5" "length nextFive = 5" by (simp_all add: firstFive_def nextFive_def)
  have t: "totalQuestions customTen = 10" by (simp add: customTen_def)
  show ?thesis
    unfolding warmApp_start
    using f l t by (simp add: batchReturns_def timerFires_def mergeQuestions_def Let_def warmApp_def
        initialApp_def)
qed

subsection \<open>The component\<close>




















lemma startTest_from_bank:
  assumes "currentConfig w = Some config" "initialFromBank config (questionBank (core w)) \<noteq> []"
  shows "core (startTest w) = handleStartTest config fetchedQs (core w)"
  using assms by (simp add: startTest_def callLoader_def handleStartTest_def Let_def)

lemma startTest_from_fetch:
  assumes "currentConfig w = Some config" "initialFromBank config (questionBank (core w)) = []"
    "firstFetches w = []"
  shows "core (firstFetchReturns 0 fetchedQs (startTest w)) = handleStartTest config fetchedQs (core w)"
  using assms
  by (simp add: startTest_def firstFetchReturns_def callLoader_def startFromFetch_def
      handleStartTest_def loadMoreQuestions_def Let_def)

lemma preloads_returned:
  "core (acts [PreloadReturns Mathematics (generateQuestions env (preloadConfig Mathematics) 5),
               PreloadReturns Reasoning (generateQuestions env (preloadConfig Reasoning) 5),
               PreloadReturns GeneralAwareness (generateQuestions env (preloadConfig GeneralAwareness) 5)]
          mounted) =
     preloadQuestions env initialApp"
proof -
  let ?g = "\<lambda>s. generateQuestions env (preloadConfig s) 5"
  have "((\<lambda>_. [])(Mathematics := ?g Mathematics, Reasoning := ?g Reasoning,
                   GeneralAwareness := ?g GeneralAwareness)) = (\<lambda>s. [] @ ?g s)"
  proof (rule ext)
    fix s
    show "((\<lambda>_. [])(Mathematics := ?g Mathematics, Reasoning := ?g Reasoning,
                   GeneralAwareness := ?g GeneralAwareness)) s = [] @ ?g s"
      by (cases s) simp_all
  qed
  then show ?thesis
    by (simp add: mounted_def initialApp_def preloadReturns_def preloadQuestions_def)
qed











section \<open>Scoring\<close>

text \<open>
  Claim C1. For a session whose response map is \<open>R\<close> and whose loaded qs are
  \<open>Q\<close>, the result of \<open>finishTest\<close> has: attempted = the number of records of
  \<open>R\<close> whose selected option is not null; correct = the number of positions of \<open>Q\<close>
  whose question has a record selecting its correct option; wrong = attempted - correct;
  score = correct - wrong/3 rounded to a hundredth; accuracy = 0 when nothing was
  attempted and 100 * correct / attempted rounded to a hundredth otherwise. The response
  map is an object, so its keys are distinct.
\<close>

theorem finishTest_scoring:
  assumes "distinct (map fst (responses s))"
  shows "let R = map_of (responses s); res = finishTest qs durationMins s in
     attempted res = int (card {k \<in> dom R. selectedOption (the (R k)) \<noteq> Null}) \<and>
     correct res = int (card {i. i < length qs \<and>
        (\<exists>r. R (qId (qs ! i)) = Some r \<and>
             selectedOption r = Chosen (correctAnswer (qs ! i)))}) \<and>
     wrong res = attempted res - correct res \<and>
     (\<exists>n::int. score res = of_int n / 100) \<and>
     \<bar>score res - (of_int (correct res) - of_int (wrong res) / 3)\<bar> \<le> 1 / 200 \<and>
     (attempted res = 0 \<longrightarrow> accuracy res = 0) \<and>
     (attempted res \<noteq> 0 \<longrightarrow>
        (\<exists>n::int. accuracy res = of_int n / 100) \<and>
        \<bar>accuracy res - 100 * of_int (correct res) / of_int (attempted res)\<bar> \<le> 1 / 200)"
proof -
  define R where "R = map_of (responses s)"
  define res where "res = finishTest qs durationMins s"
  have att: "attempted res = int (card {k \<in> dom R. selectedOption (the (R k)) \<noteq> Null})"
    unfolding res_def R_def finishTest_def Let_def
    using count_values_card [OF assms, of "\<lambda>r. selectedOption r \<noteq> Null"] by simp
  have cor0: "correct res = int (length (filter (\<lambda>q. \<exists>r. R (qId q) = Some r \<and>
                 selectedOption r = Chosen (correctAnswer q)) qs))"
    unfolding res_def R_def finishTest_def Let_def
    using foldl_count [where m = "map_of (responses s)" and f = qId
            and p = "\<lambda>r q. selectedOption r = Chosen (correctAnswer q)" and a = 0 and Q = qs]
    by simp
  have cor: "correct res = int (card {i. i < length qs \<and>
        (\<exists>r. R (qId (qs ! i)) = Some r \<and>
             selectedOption r = Chosen (correctAnswer (qs ! i)))})"
    unfolding cor0 length_filter_conv_card by simp
  have wr: "wrong res = attempted res - correct res"
    unfolding res_def finishTest_def Let_def by simp
  have sc: "score res = toFixed2 (of_int (correct res) - of_int (wrong res) / 3)"
    unfolding res_def finishTest_def Let_def by simp
  have att_nonneg: "0 \<le> attempted res" unfolding att by simp
  have acc0: "attempted res = 0 \<longrightarrow> accuracy res = 0"
    unfolding res_def finishTest_def Let_def by simp
  have acc: "attempted res \<noteq> 0 \<longrightarrow>
      accuracy res = toFixed2 (100 * of_int (correct res) / of_int (attempted res))"
    using att_nonneg unfolding res_def finishTest_def Let_def by (simp add: mult.commute)
  show ?thesis
    unfolding Let_def R_def [symmetric] res_def [symmetric]
    using att cor wr sc acc0 acc toFixed2_hundredth toFixed2_near by simp
qed

theorem finishTest_scoring_witness:
  "distinct (map fst (responses demoSession)) \<and>
   attempted (finishTest FALLBACK_QUESTIONS 30 demoSession) = 2 \<and>
   correct (finishTest FALLBACK_QUESTIONS 30 demoSession) = 1 \<and>
   wrong (finishTest FALLBACK_QUESTIONS 30 demoSession) = 1 \<and>
   score (finishTest FALLBACK_QUESTIONS 30 demoSession) = 67 / 100 \<and>
   accuracy (finishTest FALLBACK_QUESTIONS 30 demoSession) = 50"
proof -
  have h: "distinct (map fst (responses demoSession))"
    by (simp add: demoSession_def demoResponses_def)
  have a: "attempted (finishTest FALLBACK_QUESTIONS 30 demoSession) = 2"
    by (simp add: finishTest_def Let_def demoSession_def demoResponses_def initialResponse_def)
  have c: "correct (finishTest FALLBACK_QUESTIONS 30 demoSession) = 1"
    by (simp add: finishTest_def Let_def demoSession_def demoResponses_def initialResponse_def
        FALLBACK_QUESTIONS_def)
  have sc: "score (finishTest FALLBACK_QUESTIONS 30 demoSession) = 67 / 100"
    by (simp add: finishTest_def Let_def demoSession_def demoResponses_def initialResponse_def
        FALLBACK_QUESTIONS_def toFixed2_def floor_eq_iff)
  have ac: "accuracy (finishTest FALLBACK_QUESTIONS 30 demoSession) = 50"
    by (simp add: finishTest_def Let_def demoSession_def demoResponses_def initialResponse_def
        FALLBACK_QUESTIONS_def toFixed2_def floor_eq_iff)
  from finishTest_scoring [OF h, of FALLBACK_QUESTIONS 30]
  have w: "wrong (finishTest FALLBACK_QUESTIONS 30 demoSession) =
           attempted (finishTest FALLBACK_QUESTIONS 30 demoSession) -
           correct (finishTest FALLBACK_QUESTIONS 30 demoSession)"
    by (simp add: Let_def)
  show ?thesis using h a c sc ac w by simp
qed

text \<open>
  When the ids of the active set are pairwise distinct and every record belongs to a
  question of the set, the counts of the result are ordered as they should be.
\<close>

lemma finishTest_counts_ordered:
  assumes dR: "distinct (map fst (responses s))"
    and dQ: "distinct (map qId qs)"
    and sub: "set (map fst (responses s)) \<subseteq> set (map qId qs)"
  shows "attempted (finishTest qs d s) = correct (finishTest qs d s) + wrong (finishTest qs d s) \<and>
         0 \<le> correct (finishTest qs d s) \<and>
         correct (finishTest qs d s) \<le> attempted (finishTest qs d s) \<and>
         attempted (finishTest qs d s) \<le> totalQuestions_res (finishTest qs d s)"
proof -
  let ?R = "map_of (responses s)"
  let ?A = "{k \<in> dom ?R. selectedOption (the (?R k)) \<noteq> Null}"
  let ?C = "filter (\<lambda>q. \<exists>r. ?R (qId q) = Some r \<and> selectedOption r = Chosen (correctAnswer q)) qs"
  have att: "attempted (finishTest qs d s) = int (card ?A)"
    unfolding finishTest_def Let_def
    using count_values_card [OF dR, of "\<lambda>r. selectedOption r \<noteq> Null"] by simp
  have cor: "correct (finishTest qs d s) = int (length ?C)"
    unfolding finishTest_def Let_def
    using foldl_count [where m = ?R and f = qId
            and p = "\<lambda>r q. selectedOption r = Chosen (correctAnswer q)" and a = 0 and Q = qs]
    by simp
  have wr: "wrong (finishTest qs d s) = attempted (finishTest qs d s) - correct (finishTest qs d s)"
    unfolding finishTest_def Let_def by simp
  have tot: "totalQuestions_res (finishTest qs d s) = int (length qs)"
    unfolding finishTest_def Let_def by simp
  have finA: "finite ?A" by (simp add: finite_dom_map_of)
  have dC: "distinct (map qId ?C)" using dQ by (rule distinct_map_filter)
  have lenC: "length ?C = card (set (map qId ?C))"
    using distinct_card [OF dC] by simp
  have subA: "set (map qId ?C) \<subseteq> ?A"
  proof
    fix k assume "k \<in> set (map qId ?C)"
    then obtain q :: Question and r where "k = qId q" "?R (qId q) = Some r"
      "selectedOption r = Chosen (correctAnswer q)" by auto
    then show "k \<in> ?A" by auto
  qed
  have c_le_a: "length ?C \<le> card ?A"
    unfolding lenC using finA subA by (intro card_mono)
  have "?A \<subseteq> dom ?R" by auto
  also have "dom ?R = set (map fst (responses s))" by (simp add: dom_map_of_conv_image_fst)
  also have "\<dots> \<subseteq> set (map qId qs)" by (rule sub)
  finally have "card ?A \<le> card (set (map qId qs))" by (intro card_mono) simp_all
  also have "\<dots> = length qs" using distinct_card [OF dQ] by simp
  finally have a_le_t: "card ?A \<le> length qs" .
  show ?thesis unfolding att cor wr tot using c_le_a a_le_t by simp
qed

text \<open>
  Claim C6, evaluated on the first run without a key. The preload puts the three
  fallback questions into the bank entry of every subject, and \<open>handleStartTest\<close>
  concatenates the entries of the three subjects of the full mock test without looking
  at the ids, so the active set holds every fallback id three times, while the response
  map has one record per id. After one correct answer to the first question the result
  has attempted = 1 but correct = 3 and wrong = -2.
\<close>

theorem duplicate_ids_miscount:
  "map qId (questions firstRunApp) =
     [''fb-1'', ''fb-2'', ''fb-3'', ''fb-1'', ''fb-2'', ''fb-3'', ''fb-1'', ''fb-2'', ''fb-3''] \<and>
   map fst (responses firstRunSession) = [''fb-1'', ''fb-2'', ''fb-3''] \<and>
   (\<exists>s. handleOptionSelect (questions firstRunApp) 3 firstRunSession = Some s \<and>
        attempted (finishTest (questions firstRunApp) 90 s) = 1 \<and>
        correct (finishTest (questions firstRunApp) 90 s) = 3 \<and>
        wrong (finishTest (questions firstRunApp) 90 s) = - 2 \<and>
        totalQuestions_res (finishTest (questions firstRunApp) 90 s) = 9)"
  unfolding firstRunSession_def firstRun_questions
  by (simp add: FALLBACK_QUESTIONS_def handleOptionSelect_def questionAt_def finishTest_def
      Let_def initialResponse_def spread_def)

section \<open>Response handlers\<close>

text \<open>
  Claim C9. When the current question is loaded and has a response record,
  \<open>handleClearResponse\<close> sets that record's selected option to null and its status to
  Not Answered, keeps its visited flag, bookmark flag, time-spent counter and question id,
  and leaves every other record, the order of the keys and the rest of the session
  unchanged.
\<close>

theorem handleClearResponse_frame:
  assumes cur: "questionAt qs (currentQuestionIndex s) = Some q"
      and rec: "map_of (responses s) (qId q) = Some r"
  shows "\<exists>s' r'. handleClearResponse qs s = Some s' \<and>
           map_of (responses s') (qId q) = Some r' \<and>
           selectedOption r' = Null \<and> status r' = Some NotAnswered \<and>
           visited r' = visited r \<and> isBookmarked r' = isBookmarked r \<and>
           timeSpentSeconds r' = timeSpentSeconds r \<and> questionId r' = questionId r \<and>
           (\<forall>k. k \<noteq> qId q \<longrightarrow> map_of (responses s') k = map_of (responses s) k) \<and>
           map fst (responses s') = map fst (responses s) \<and>
           currentQuestionIndex s' = currentQuestionIndex s \<and>
           timeLeft s' = timeLeft s \<and> isPaused s' = isPaused s"
proof -
  have key: "qId q \<in> fst ` set (responses s)"
    using rec by (metis domI dom_map_of_conv_image_fst)
  show ?thesis
    using cur rec key
    by (simp add: handleClearResponse_def spread_def update_conv' update_keys)
qed

theorem handleClearResponse_frame_witness:
  "questionAt FALLBACK_QUESTIONS (currentQuestionIndex demoSession) = Some (FALLBACK_QUESTIONS ! 0) \<and>
   map_of (responses demoSession) (qId (FALLBACK_QUESTIONS ! 0)) =
     Some \<lparr>questionId = Some ''fb-1'', selectedOption = Chosen 3, status = Some Answered,
           timeSpentSeconds = Some 42, visited = Some True, isBookmarked = Some True\<rparr> \<and>
   (\<exists>s' r'. handleClearResponse FALLBACK_QUESTIONS demoSession = Some s' \<and>
      map_of (responses s') ''fb-1'' = Some r' \<and>
      selectedOption r' = Null \<and> status r' = Some NotAnswered \<and>
      visited r' = Some True \<and> isBookmarked r' = Some True \<and> timeSpentSeconds r' = Some 42 \<and>
      map_of (responses s') ''fb-2'' = map_of (responses demoSession) ''fb-2'')"
proof -
  have i: "qId (FALLBACK_QUESTIONS ! 0) = ''fb-1''" by (simp add: FALLBACK_QUESTIONS_def)
  from handleClearResponse_frame [OF demo_current demo_record]
  show ?thesis using demo_current demo_record unfolding i by fastforce
qed

text \<open>
  Claim C10. When the current question is loaded and its record has a boolean bookmark
  flag, \<open>handleBookmark\<close> changes only the \<open>isBookmarked\<close> field of that record (all
  its other fields, all other records and the rest of the session stay as they are), and
  a second \<open>handleBookmark\<close> gives back the original session, response map included.
\<close>

theorem handleBookmark_toggle:
  assumes cur: "questionAt qs (currentQuestionIndex s) = Some q"
      and rec: "map_of (responses s) (qId q) = Some r"
      and flag: "isBookmarked r = Some b"
  shows "\<exists>s'. handleBookmark qs s = Some s' \<and>
           s' = s\<lparr>responses := AList.update (qId q) (r\<lparr>isBookmarked := Some (\<not> b)\<rparr>) (responses s)\<rparr> \<and>
           map_of (responses s') (qId q) = Some (r\<lparr>isBookmarked := Some (\<not> b)\<rparr>) \<and>
           (\<forall>k. k \<noteq> qId q \<longrightarrow> map_of (responses s') k = map_of (responses s) k) \<and>
           map fst (responses s') = map fst (responses s) \<and>
           handleBookmark qs s' = Some s"
proof -
  define r' where "r' = r\<lparr>isBookmarked := Some (\<not> b)\<rparr>"
  define s' where "s' = s\<lparr>responses := AList.update (qId q) r' (responses s)\<rparr>"
  have key: "qId q \<in> fst ` set (responses s)"
    using rec by (metis domI dom_map_of_conv_image_fst)
  have first: "handleBookmark qs s = Some s'"
    using cur rec flag by (cases b) (simp_all add: handleBookmark_def s'_def r'_def)
  have look: "map_of (responses s') (qId q) = Some r'"
    by (simp add: s'_def update_conv')
  have r_again: "r'\<lparr>isBookmarked := Some (\<not> (isBookmarked r' = Some True))\<rparr> = r"
    using flag by (cases b) (simp_all add: r'_def)
  have "handleBookmark qs s' =
          Some (s'\<lparr>responses := AList.update (qId q) r (responses s')\<rparr>)"
    using cur look r_again by (simp add: handleBookmark_def s'_def)
  also have "s'\<lparr>responses := AList.update (qId q) r (responses s')\<rparr> = s"
    using update_triv [OF rec] by (simp add: s'_def)
  finally have second: "handleBookmark qs s' = Some s" .
  have others: "\<forall>k. k \<noteq> qId q \<longrightarrow> map_of (responses s') k = map_of (responses s) k"
    by (simp add: s'_def update_conv')
  have keys: "map fst (responses s') = map fst (responses s)"
    using key by (simp add: s'_def update_keys)
  show ?thesis
    using first look second others keys unfolding s'_def r'_def by simp
qed

theorem handleBookmark_toggle_witness:
  "questionAt FALLBACK_QUESTIONS (currentQuestionIndex demoSession) = Some (FALLBACK_QUESTIONS ! 0) \<and>
   map_of (responses demoSession) (qId (FALLBACK_QUESTIONS ! 0)) =
     Some \<lparr>questionId = Some ''fb-1'', selectedOption = Chosen 3, status = Some Answered,
           timeSpentSeconds = Some 42, visited = Some True, isBookmarked = Some True\<rparr> \<and>
   (\<exists>s'. handleBookmark FALLBACK_QUESTIONS demoSession = Some s' \<and>
      map_of (responses s') ''fb-1'' =
        Some \<lparr>questionId = Some ''fb-1'', selectedOption = Chosen 3, status = Some Answered,
              timeSpentSeconds = Some 42, visited = Some True, isBookmarked = Some False\<rparr> \<and>
      handleBookmark FALLBACK_QUESTIONS s' = Some demoSession)"
proof -
  have i: "qId (FALLBACK_QUESTIONS ! 0) = ''fb-1''" by (simp add: FALLBACK_QUESTIONS_def)
  from handleBookmark_toggle [OF demo_current demo_record, of True]
  show ?thesis using demo_current demo_record unfolding i by fastforce
qed

section \<open>The timer\<close>

text \<open>
  A tick takes one second off the clock and adds one to the time spent on the current
  question, leaving the other records alone.
\<close>

lemma intervalCallback_tick:
  assumes "questionAt qs (currentQuestionIndex s) = Some q"
    and "map_of (responses s) (qId q) = Some r" and "timeSpentSeconds r = Some t"
  shows "timeLeft (intervalCallback qs s) = timeLeft s - 1 \<and>
         map_of (responses (intervalCallback qs s)) (qId q) = Some (r\<lparr>timeSpentSeconds := Some (t + 1)\<rparr>) \<and>
         (\<forall>k. k \<noteq> qId q \<longrightarrow>
            map_of (responses (intervalCallback qs s)) k = map_of (responses s) k)"
  using assms by (simp add: intervalCallback_def Let_def spread_def update_conv')

text \<open>
  The timer effect never reaches its call of \<open>finishTest\<close>: the first test already
  returns when no time is left.
\<close>

lemma timerEffect_never_finishes: "timerEffect s \<noteq> CallFinishTest"
  by (simp add: timerEffect_def)

text \<open>
  Claim C3, evaluated at a running session with one second left: the effect arms the
  interval, the tick brings the remaining time to zero, and the effect that runs next
  returns without calling \<open>finishTest\<close>, so no result is computed and the session does
  not move to the result screen.
\<close>

theorem timer_expiry_without_submission:
  "timerEffect demoSession = SetInterval \<and>
   timeLeft (intervalCallback FALLBACK_QUESTIONS demoSession) = 0 \<and>
   isPaused (intervalCallback FALLBACK_QUESTIONS demoSession) = False \<and>
   timerEffect (intervalCallback FALLBACK_QUESTIONS demoSession) = Return"
  by (simp add: timerEffect_def intervalCallback_def Let_def demoSession_def questionAt_def
      FALLBACK_QUESTIONS_def)

section \<open>The content provider adapter\<close>

text \<open>
  Claim C4, as amended. The count written into the prompt is \<open>min(batchSize, 5)\<close>, so it
  is at most 5. With a key configured: when the \<open>try\<close> block fails (the request is
  rejected or the text yields no parsable array) the result is the fallback slice
  \<open>slice(0, min(batchSize, 5))\<close>, which has at most 3 questions and, for a batch size
  that is not negative, at most \<open>batchSize\<close>; when the block yields an array, the result
  has exactly as many questions as the array, whatever was requested.
\<close>

theorem generateQuestions_length:
  assumes "truthy (API_KEY env)"
  shows "count (buildPrompt config batchSize) = min batchSize 5 \<and>
         count (buildPrompt config batchSize) \<le> 5 \<and>
         (tryBlock env config batchSize = None \<longrightarrow>
            generateQuestions env config batchSize = slice0 (min batchSize 5) FALLBACK_QUESTIONS \<and>
            length (generateQuestions env config batchSize) \<le> 3 \<and>
            (0 \<le> batchSize \<longrightarrow> int (length (generateQuestions env config batchSize)) \<le> batchSize)) \<and>
         (\<forall>xs. tryBlock env config batchSize = Some xs \<longrightarrow>
            length (generateQuestions env config batchSize) = length xs)"
proof -
  have len3: "length FALLBACK_QUESTIONS = 3" by (simp add: FALLBACK_QUESTIONS_def)
  have a: "length (slice0 (min batchSize 5) FALLBACK_QUESTIONS) \<le> 3"
    using slice0_length [of "min batchSize 5" FALLBACK_QUESTIONS] len3 by simp
  have b: "0 \<le> batchSize \<longrightarrow> int (length (slice0 (min batchSize 5) FALLBACK_QUESTIONS)) \<le> batchSize"
    using slice0_length_nonneg [of "min batchSize 5" FALLBACK_QUESTIONS] by auto
  show ?thesis
    using assms a b by (simp add: generateQuestions_def buildPrompt_def withIds_length)
qed

theorem generateQuestions_length_witness:
  "truthy (API_KEY (answeringEnv Rejects)) \<and>
   tryBlock (answeringEnv Rejects) demoConfig 2 = None \<and>
   count (buildPrompt demoConfig 2) = 2 \<and>
   generateQuestions (answeringEnv Rejects) demoConfig 2 = [FALLBACK_QUESTIONS ! 0, FALLBACK_QUESTIONS ! 1] \<and>
   length (generateQuestions (answeringEnv Rejects) demoConfig 2) \<le> 3"
proof -
  have k: "truthy (API_KEY (answeringEnv Rejects))" by (simp add: answeringEnv_def truthy_def)
  have t: "tryBlock (answeringEnv Rejects) demoConfig 2 = None"
    by (simp add: tryBlock_def answeringEnv_def)
  have s: "slice0 (min 2 5) FALLBACK_QUESTIONS = [FALLBACK_QUESTIONS ! 0, FALLBACK_QUESTIONS ! 1]"
    by (simp add: slice0_def FALLBACK_QUESTIONS_def)
  from generateQuestions_length [OF k, of demoConfig 2] k t s show ?thesis by simp
qed

text \<open>
  The claim as stated fails: asked for one question, a provider that answers with an
  array of two makes \<open>generateQuestions\<close> return two.
\<close>

theorem generateQuestions_exceeds_batchSize:
  "count (buildPrompt demoConfig 1) = 1 \<and>
   length (generateQuestions (answeringEnv (Responds (Some twoForOne))) demoConfig 1) = 2"
  unfolding twoForOne_batch by (simp add: withIds_length buildPrompt_def)

text \<open>
  Claim C8, as amended. With a key configured, every \<open>```json\<close> and \<open>```\<close> marker is
  deleted from the provider's text, wherever it stands, and what is parsed is the text
  from the first \<open>[\<close> to the last \<open>]\<close>. So for a text \<open>pre [ mid ] post\<close> whose \<open>pre\<close>
  holds no \<open>[\<close> and whose \<open>post\<close> holds no \<open>]\<close>, whatever prose and fences they hold,
  the result is decided by \<open>[ mid' ]\<close>, where \<open>mid'\<close> is \<open>mid\<close> without the markers: if
  it parses to an array, the result is the elements of the array, each with its new id,
  and otherwise it is the first \<open>min(batchSize, 5)\<close> questions of the fallback list. In
  particular an array that holds no marker and parses is returned entire. A text with
  no \<open>[\<close> before a \<open>]\<close>, a missing text and a rejected request give the fallback slice
  as well, which is the whole list from a batch size of three on. The function is
  total: no error reaches the caller.
\<close>

theorem generateQuestions_bracket_extraction:
  assumes key: "truthy (API_KEY env)"
  shows "(\<forall>pre mid post.
            generateContent env (buildPrompt config batchSize) =
              Responds (Some (pre @ CHR ''['' # mid @ CHR '']'' # post)) \<and>
            CHR ''['' \<notin> set pre \<and> CHR '']'' \<notin> set post \<longrightarrow>
            generateQuestions env config batchSize =
              (case JSON_parse (CHR ''['' # deleteAll ''```'' (deleteAll ''```json'' mid) @ [CHR '']'']) of
                 Some (JArray xs) \<Rightarrow> withIds env xs
               | _ \<Rightarrow> slice0 (min batchSize 5) FALLBACK_QUESTIONS)) \<and>
         (\<forall>pre mid post xs.
            generateContent env (buildPrompt config batchSize) =
              Responds (Some (pre @ CHR ''['' # mid @ CHR '']'' # post)) \<and>
            CHR ''['' \<notin> set pre \<and> CHR '']'' \<notin> set post \<and>
            deleteAll ''```'' (deleteAll ''```json'' mid) = mid \<and>
            JSON_parse (CHR ''['' # mid @ [CHR '']'']) = Some (JArray xs) \<longrightarrow>
            generateQuestions env config batchSize = withIds env xs) \<and>
         (\<forall>t. generateContent env (buildPrompt config batchSize) = Responds (Some t) \<and>
              (\<nexists>pre mid post. t = pre @ CHR ''['' # mid @ CHR '']'' # post) \<longrightarrow>
            generateQuestions env config batchSize = slice0 (min batchSize 5) FALLBACK_QUESTIONS) \<and>
         (generateContent env (buildPrompt config batchSize) = Rejects \<or>
          generateContent env (buildPrompt config batchSize) = Responds None \<longrightarrow>
            generateQuestions env config batchSize = slice0 (min batchSize 5) FALLBACK_QUESTIONS) \<and>
         (3 \<le> batchSize \<longrightarrow> slice0 (min batchSize 5) FALLBACK_QUESTIONS = FALLBACK_QUESTIONS)"
proof -
  have span: "generateQuestions env config batchSize =
              (case JSON_parse (CHR ''['' # deleteAll ''```'' (deleteAll ''```json'' mid) @ [CHR '']'']) of
                 Some (JArray xs) \<Rightarrow> withIds env xs
               | _ \<Rightarrow> slice0 (min batchSize 5) FALLBACK_QUESTIONS)"
    if g: "generateContent env (buildPrompt config batchSize) =
              Responds (Some (pre @ CHR ''['' # mid @ CHR '']'' # post))"
      and b: "CHR ''['' \<notin> set pre" "CHR '']'' \<notin> set post" for pre mid post
  proof -
    have t: "tryBlock env config batchSize =
             (case JSON_parse (CHR ''['' # deleteAll ''```'' (deleteAll ''```json'' mid) @ [CHR '']'']) of
                Some (JArray xs) \<Rightarrow> Some xs | _ \<Rightarrow> None)"
      unfolding tryBlock_def g using cleanResponse_span [OF b, of mid]
      by (simp del: append_Cons append.simps)
    show ?thesis
      using key unfolding generateQuestions_def t
      by (simp add: Let_def split: option.split json.split)
  qed
  have none: "generateQuestions env config batchSize = slice0 (min batchSize 5) FALLBACK_QUESTIONS"
    if "tryBlock env config batchSize = None"
    using key that by (simp add: generateQuestions_def)
  have nospan: "generateQuestions env config batchSize = slice0 (min batchSize 5) FALLBACK_QUESTIONS"
    if g: "generateContent env (buildPrompt config batchSize) = Responds (Some t)"
      and n: "\<nexists>pre mid post. t = pre @ CHR ''['' # mid @ CHR '']'' # post" for t
  proof -
    from n have "\<not> hasSpan t" by (simp add: hasSpan_decompose)
    then have "extractArrayText (cleanResponse t) = None" by (rule cleanResponse_no_span)
    then have "tryBlock env config batchSize = None" unfolding tryBlock_def g by simp
    then show ?thesis by (rule none)
  qed
  have fail: "generateQuestions env config batchSize = slice0 (min batchSize 5) FALLBACK_QUESTIONS"
    if "generateContent env (buildPrompt config batchSize) = Rejects \<or>
        generateContent env (buildPrompt config batchSize) = Responds None"
  proof -
    have e: "extractArrayText (cleanResponse []) = None"
      by (simp add: cleanResponse_def trim_def extractArrayText_def lastIndexOf_def Let_def)
    from that have "tryBlock env config batchSize = None"
      unfolding tryBlock_def using e by auto
    then show ?thesis by (rule none)
  qed
  have whole: "slice0 (min batchSize 5) FALLBACK_QUESTIONS = FALLBACK_QUESTIONS" if "3 \<le> batchSize"
    using that by (simp add: slice0_def FALLBACK_QUESTIONS_def)
  show ?thesis
  proof (intro conjI allI impI)
    fix pre mid post
    assume "generateContent env (buildPrompt config batchSize) =
              Responds (Some (pre @ CHR ''['' # mid @ CHR '']'' # post)) \<and>
            CHR ''['' \<notin> set pre \<and> CHR '']'' \<notin> set post"
    then show "generateQuestions env config batchSize =
              (case JSON_parse (CHR ''['' # deleteAll ''```'' (deleteAll ''```json'' mid) @ [CHR '']'']) of
                 Some (JArray xs) \<Rightarrow> withIds env xs
               | _ \<Rightarrow> slice0 (min batchSize 5) FALLBACK_QUESTIONS)"
      using span by blast
  next
    fix pre mid post xs
    assume a: "generateContent env (buildPrompt config batchSize) =
              Responds (Some (pre @ CHR ''['' # mid @ CHR '']'' # post)) \<and>
            CHR ''['' \<notin> set pre \<and> CHR '']'' \<notin> set post \<and>
            deleteAll ''```'' (deleteAll ''```json'' mid) = mid \<and>
            JSON_parse (CHR ''['' # mid @ [CHR '']'']) = Some (JArray xs)"
    then have "generateQuestions env config batchSize =
              (case JSON_parse (CHR ''['' # deleteAll ''```'' (deleteAll ''```json'' mid) @ [CHR '']'']) of
                 Some (JArray xs) \<Rightarrow> withIds env xs
               | _ \<Rightarrow> slice0 (min batchSize 5) FALLBACK_QUESTIONS)"
      using span by blast
    with a show "generateQuestions env config batchSize = withIds env xs" by simp
  next
    fix t
    assume "generateContent env (buildPrompt config batchSize) = Responds (Some t) \<and>
              (\<nexists>pre mid post. t = pre @ CHR ''['' # mid @ CHR '']'' # post)"
    then show "generateQuestions env config batchSize = slice0 (min batchSize 5) FALLBACK_QUESTIONS"
      using nospan by blast
  next
    assume "generateContent env (buildPrompt config batchSize) = Rejects \<or>
          generateContent env (buildPrompt config batchSize) = Responds None"
    then show "generateQuestions env config batchSize = slice0 (min batchSize 5) FALLBACK_QUESTIONS"
      by (rule fail)
  next
    assume "3 \<le> batchSize"
    then show "slice0 (min batchSize 5) FALLBACK_QUESTIONS = FALLBACK_QUESTIONS" by (rule whole)
  qed
qed

theorem generateQuestions_bracket_extraction_witness:
  "truthy (API_KEY (answeringEnv (Responds (Some wrappedAnswer)))) \<and>
   generateQuestions (answeringEnv (Responds (Some wrappedAnswer))) demoConfig 5 =
     withIds (answeringEnv (Responds (Some wrappedAnswer)))
       [JObject [(''text'', JString ''Q1''), (''correctAnswer'', JNumber 2)]] \<and>
   map qId (generateQuestions (answeringEnv (Responds (Some wrappedAnswer))) demoConfig 5) =
     [''gen-1700000000000-z''] \<and>
   map qtext (generateQuestions (answeringEnv (Responds (Some markerInString))) demoConfig 5) = [''ab''] \<and>
   generateQuestions (answeringEnv (Responds (Some ''Nothing ] today [''))) demoConfig 2 =
     [FALLBACK_QUESTIONS ! 0, FALLBACK_QUESTIONS ! 1] \<and>
   generateQuestions (answeringEnv Rejects) demoConfig 5 = FALLBACK_QUESTIONS"
proof -
  let ?env = "answeringEnv (Responds (Some wrappedAnswer))"
  let ?env2 = "answeringEnv (Responds (Some markerInString))"
  let ?env3 = "answeringEnv (Responds (Some ''Nothing ] today [''))"
  have k: "truthy (API_KEY (answeringEnv r))" for r by (simp add: answeringEnv_def truthy_def)
  have g: "generateContent ?env (buildPrompt demoConfig 5) =
             Responds (Some (''Here you go:\<newline>```json\<newline>'' @
               CHR ''['' # ''{\"text\": \"Q1\", \"correctAnswer\": 2}'' @
               CHR '']'' # ''\<newline>```\<newline>Good luck!''))"
    unfolding wrappedAnswer_span [symmetric] by (simp add: answeringEnv_def)
  have b: "CHR ''['' \<notin> set ''Here you go:\<newline>```json\<newline>''"
          "CHR '']'' \<notin> set ''\<newline>```\<newline>Good luck!''" by simp_all
  have nf: "deleteAll ''```'' (deleteAll ''```json'' ''{\"text\": \"Q1\", \"correctAnswer\": 2}'') =
              ''{\"text\": \"Q1\", \"correctAnswer\": 2}''" by simp
  from generateQuestions_bracket_extraction [OF k, of "Responds (Some wrappedAnswer)" demoConfig 5]
  have 1: "generateQuestions ?env demoConfig 5 =
          withIds ?env [JObject [(''text'', JString ''Q1''), (''correctAnswer'', JNumber 2)]]"
    using g b nf demoArray_parse by blast
  have 2: "map qId (withIds ?env [JObject [(''text'', JString ''Q1''), (''correctAnswer'', JNumber 2)]]) =
                   [''gen-1700000000000-z'']"
    by (simp add: withIds_def genId_def answeringEnv_def)
  have g2: "generateContent ?env2 (buildPrompt demoConfig 5) =
              Responds (Some ([] @ CHR ''['' # ''{\"text\": \"a```b\"}'' @ CHR '']'' # []))"
    unfolding markerInString_parts [symmetric] by (simp add: answeringEnv_def)
  have e: "CHR ''['' \<notin> set []" "CHR '']'' \<notin> set []" by simp_all
  from generateQuestions_bracket_extraction [OF k, of "Responds (Some markerInString)" demoConfig 5]
  have "generateQuestions ?env2 demoConfig 5 =
          (case JSON_parse (CHR ''['' # deleteAll ''```'' (deleteAll ''```json'' ''{\"text\": \"a```b\"}'') @ [CHR '']'']) of
             Some (JArray xs) \<Rightarrow> withIds ?env2 xs
           | _ \<Rightarrow> slice0 (min 5 5) FALLBACK_QUESTIONS)"
    using g2 e by blast
  then have "generateQuestions ?env2 demoConfig 5 = withIds ?env2 [JObject [(''text'', JString ''ab'')]]"
    unfolding markerInString_stripped markerInString_parse by simp
  then have 3: "map qtext (generateQuestions ?env2 demoConfig 5) = [''ab'']"
    by (simp add: withIds_def questionOfJson_def stringOf_def field_def)
  have "\<not> hasSpan ''Nothing ] today [''" by simp
  then have n: "\<nexists>pre mid post. ''Nothing ] today ['' = pre @ CHR ''['' # mid @ CHR '']'' # post"
    unfolding hasSpan_decompose .
  have g3: "generateContent ?env3 (buildPrompt demoConfig 2) = Responds (Some ''Nothing ] today ['')"
    by (simp add: answeringEnv_def)
  from generateQuestions_bracket_extraction [OF k, of "Responds (Some ''Nothing ] today ['')" demoConfig 2]
  have "generateQuestions ?env3 demoConfig 2 = slice0 (min 2 5) FALLBACK_QUESTIONS"
    using g3 n by blast
  then have 4: "generateQuestions ?env3 demoConfig 2 = [FALLBACK_QUESTIONS ! 0, FALLBACK_QUESTIONS ! 1]"
    by (simp add: slice0_def FALLBACK_QUESTIONS_def)
  have g5: "generateContent (answeringEnv Rejects) (buildPrompt demoConfig 5) = Rejects"
    by (simp add: answeringEnv_def)
  from generateQuestions_bracket_extraction [OF k, of Rejects demoConfig 5]
  have 5: "generateQuestions (answeringEnv Rejects) demoConfig 5 = FALLBACK_QUESTIONS"
    using g5 by auto
  show ?thesis using k 1 2 3 4 5 by simp
qed

text \<open>
  The claim as stated fails twice. A bracket in the prose before the array becomes the
  first opening bracket, the extracted text is not JSON, and the fallback list is
  returned although the wrapped array is valid. And for a batch size below three the
  fallback that is returned is a proper prefix of the static list.
\<close>

theorem prose_bracket_defeats_extraction:
  "JSON_parse ''[{\"text\": \"Q1\", \"correctAnswer\": 2}]'' =
     Some (JArray [JObject [(''text'', JString ''Q1''), (''correctAnswer'', JNumber 2)]]) \<and>
   extractArrayText (cleanResponse bracketInProse) =
     Some ''[RRB NTPC]:\<newline>\<newline>[{\"text\": \"Q1\", \"correctAnswer\": 2}]'' \<and>
   generateQuestions (answeringEnv (Responds (Some bracketInProse))) demoConfig 5 = FALLBACK_QUESTIONS \<and>
   generateQuestions (answeringEnv (Responds (Some ''No questions today.''))) demoConfig 1 =
     [FALLBACK_QUESTIONS ! 0]"
proof -
  have p: "JSON_parse ''[{\"text\": \"Q1\", \"correctAnswer\": 2}]'' =
     Some (JArray [JObject [(''text'', JString ''Q1''), (''correctAnswer'', JNumber 2)]])"
    by code_simp
  have c: "cleanResponse bracketInProse =
             ''Here is the list [RRB NTPC]:\<newline>\<newline>[{\"text\": \"Q1\", \"correctAnswer\": 2}]''"
    unfolding bracketInProse_def cleanResponse_def trim_def by (simp add: isSpace_def)
  have e: "extractArrayText (cleanResponse bracketInProse) =
     Some ''[RRB NTPC]:\<newline>\<newline>[{\"text\": \"Q1\", \"correctAnswer\": 2}]''"
    unfolding c extractArrayText_def lastIndexOf_def substring_def by (simp add: Let_def)
  have n: "JSON_parse ''[RRB NTPC]:\<newline>\<newline>[{\"text\": \"Q1\", \"correctAnswer\": 2}]'' = None"
    by code_simp
  have f: "slice0 5 FALLBACK_QUESTIONS = FALLBACK_QUESTIONS"
    by (simp add: slice0_def FALLBACK_QUESTIONS_def)
  have g1: "generateQuestions (answeringEnv (Responds (Some bracketInProse))) demoConfig 5 = FALLBACK_QUESTIONS"
    by (simp add: generateQuestions_def tryBlock_def answeringEnv_def truthy_def e n f Let_def)
  have c2: "extractArrayText (cleanResponse ''No questions today.'') = None"
    unfolding cleanResponse_def trim_def extractArrayText_def lastIndexOf_def
    by (simp add: isSpace_def Let_def)
  have f2: "slice0 1 FALLBACK_QUESTIONS = [FALLBACK_QUESTIONS ! 0]"
    by (simp add: slice0_def FALLBACK_QUESTIONS_def)
  have g2: "generateQuestions (answeringEnv (Responds (Some ''No questions today.''))) demoConfig 1 =
     [FALLBACK_QUESTIONS ! 0]"
    by (simp add: generateQuestions_def tryBlock_def answeringEnv_def truthy_def c2 f2 Let_def)
  show ?thesis using p e g1 g2 by simp
qed

section \<open>Restoring a stored session\<close>

text \<open>
  Claim C7. For a stored item that is not the empty string: if it does not parse, no
  session is offered and the item is removed; if it parses to an object whose timestamp
  is a number \<open>t\<close>, the session is offered and the item kept exactly when
  \<open>now - t\<close> is less than 24 hours (in milliseconds), and otherwise no session is
  offered and the item is removed.
\<close>

theorem restoreSession_24h:
  assumes "s \<noteq> []"
  shows "(JSON_parse s = None \<longrightarrow>
            restoreSession coerce now (Some s) = \<lparr>savedSession = None, storedItem = None\<rparr>) \<and>
         (\<forall>parsed t. JSON_parse s = Some parsed \<and> field ''timestamp'' parsed = Some (JNumber t) \<longrightarrow>
            restoreSession coerce now (Some s) =
              (if of_int now - t < 24 * 60 * 60 * 1000
               then \<lparr>savedSession = Some parsed, storedItem = Some s\<rparr>
               else \<lparr>savedSession = None, storedItem = None\<rparr>))"
proof (intro conjI allI impI)
  assume "JSON_parse s = None"
  with assms show "restoreSession coerce now (Some s) = \<lparr>savedSession = None, storedItem = None\<rparr>"
    by (simp add: restoreSession_def)
next
  fix parsed t
  assume a: "JSON_parse s = Some parsed \<and> field ''timestamp'' parsed = Some (JNumber t)"
  then have notnull: "parsed \<noteq> JNull" by (auto simp: field_def)
  from a assms notnull
  show "restoreSession coerce now (Some s) =
          (if of_int now - t < 24 * 60 * 60 * 1000
           then \<lparr>savedSession = Some parsed, storedItem = Some s\<rparr>
           else \<lparr>savedSession = None, storedItem = None\<rparr>)"
    by (cases parsed) (simp_all add: restoreSession_def toNumber_def elapsedLess_def)
qed

theorem restoreSession_24h_witness:
  "demoSnapshot \<noteq> [] \<and>
   restoreSession (\<lambda>_. NaN) (1700000000000 + 1 * 60 * 60 * 1000) (Some demoSnapshot) =
     \<lparr>savedSession = Some (JObject [(''responses'', JObject []), (''timeLeft'', JNumber 5400),
                                    (''timestamp'', JNumber 1700000000000)]),
      storedItem = Some demoSnapshot\<rparr> \<and>
   restoreSession (\<lambda>_. NaN) (1700000000000 + 25 * 60 * 60 * 1000) (Some demoSnapshot) =
     \<lparr>savedSession = None, storedItem = None\<rparr>"
proof -
  have ne: "demoSnapshot \<noteq> []" by (simp add: demoSnapshot_def)
  have ts: "field ''timestamp'' (JObject [(''responses'', JObject []), (''timeLeft'', JNumber 5400),
                    (''timestamp'', JNumber 1700000000000)]) = Some (JNumber 1700000000000)"
    by (simp add: field_def)
  from restoreSession_24h [OF ne, of "\<lambda>_. NaN" "1700000000000 + 1 * 60 * 60 * 1000"]
       restoreSession_24h [OF ne, of "\<lambda>_. NaN" "1700000000000 + 25 * 60 * 60 * 1000"]
       demoSnapshot_parse ts ne
  show ?thesis by simp
qed

section \<open>The progressive loader\<close>




text \<open>
  Claim C5, as amended. In a session that starts with the loader at rest, every event
  leaves the active set as it was or appends to it. A merge adds at most the batch; an
  id that is already present occurs afterwards as often as before; ids that were
  distinct stay distinct when the ids of the batch are distinct; and when the batch is
  no longer than the size that was requested, which is \<open>min(total - loaded, 5)\<close>, the
  set stays within the total.
\<close>

theorem active_set_merge:
  assumes "quiescent app"
  shows "\<forall>fetchedQs es. let s = run config es (handleStartTest config fetchedQs app) in
           (\<forall>e. \<exists>added. questions (step config e s) = questions s @ added) \<and>
           (\<forall>newQs.
              length (questions (batchReturns config newQs s)) \<le> length (questions s) + length newQs \<and>
              (\<forall>i \<in> set (map qId (questions s)).
                 count_list (map qId (questions (batchReturns config newQs s))) i =
                 count_list (map qId (questions s)) i) \<and>
              (distinct (map qId (questions s)) \<and> distinct (map qId newQs) \<longrightarrow>
                 distinct (map qId (questions (batchReturns config newQs s)))) \<and>
              (\<forall>b. pending s = [b] \<and> int (length newQs) \<le> b \<longrightarrow>
                 b = min (totalQuestions config - int (length (questions s))) 5 \<and>
                 int (length (questions (batchReturns config newQs s))) \<le> totalQuestions config))"
proof (intro allI)
  fix fetchedQs es
  define s where "s = run config es (handleStartTest config fetchedQs app)"
  have inv: "loaderInv config s"
    unfolding s_def using assms by (intro run_inv handleStartTest_inv)
  have grows: "\<forall>e. \<exists>added. questions (step config e s) = questions s @ added"
    using step_grows by blast
  have merge: "length (questions (batchReturns config newQs s)) \<le> length (questions s) + length newQs \<and>
              (\<forall>i \<in> set (map qId (questions s)).
                 count_list (map qId (questions (batchReturns config newQs s))) i =
                 count_list (map qId (questions s)) i) \<and>
              (distinct (map qId (questions s)) \<and> distinct (map qId newQs) \<longrightarrow>
                 distinct (map qId (questions (batchReturns config newQs s)))) \<and>
              (\<forall>b. pending s = [b] \<and> int (length newQs) \<le> b \<longrightarrow>
                 b = min (totalQuestions config - int (length (questions s))) 5 \<and>
                 int (length (questions (batchReturns config newQs s))) \<le> totalQuestions config)"
    for newQs
  proof (intro conjI ballI impI allI)
    show "length (questions (batchReturns config newQs s)) \<le> length (questions s) + length newQs"
      using mergeQuestions_length [of "questions s" newQs] by (simp add: batchReturns_questions)
  next
    fix i assume "i \<in> set (map qId (questions s))"
    then show "count_list (map qId (questions (batchReturns config newQs s))) i =
               count_list (map qId (questions s)) i"
      using mergeQuestions_keeps_count [of i "questions s" newQs]
      by (simp add: batchReturns_questions)
  next
    assume "distinct (map qId (questions s)) \<and> distinct (map qId newQs)"
    then show "distinct (map qId (questions (batchReturns config newQs s)))"
      using mergeQuestions_distinct [of "questions s" newQs]
      by (simp add: batchReturns_questions)
  next
    fix b assume b: "pending s = [b] \<and> int (length newQs) \<le> b"
    with inv show "b = min (totalQuestions config - int (length (questions s))) 5"
      by (auto simp: loaderInv_def)
    from b show "int (length (questions (batchReturns config newQs s))) \<le> totalQuestions config"
      using batchReturns_within_total [OF inv, of b newQs] by simp
  qed
  show "let s = run config es (handleStartTest config fetchedQs app) in
           (\<forall>e. \<exists>added. questions (step config e s) = questions s @ added) \<and>
           (\<forall>newQs.
              length (questions (batchReturns config newQs s)) \<le> length (questions s) + length newQs \<and>
              (\<forall>i \<in> set (map qId (questions s)).
                 count_list (map qId (questions (batchReturns config newQs s))) i =
                 count_list (map qId (questions s)) i) \<and>
              (distinct (map qId (questions s)) \<and> distinct (map qId newQs) \<longrightarrow>
                 distinct (map qId (questions (batchReturns config newQs s)))) \<and>
              (\<forall>b. pending s = [b] \<and> int (length newQs) \<le> b \<longrightarrow>
                 b = min (totalQuestions config - int (length (questions s))) 5 \<and>
                 int (length (questions (batchReturns config newQs s))) \<le> totalQuestions config))"
    unfolding Let_def s_def [symmetric] using grows merge by blast
qed

theorem active_set_merge_witness:
  "quiescent fourBanked \<and>
   pending (handleStartTest demoConfig [] fourBanked) = [1] \<and>
   int (length [sample ''gen-e'']) \<le> 1 \<and>
   int (length (questions (batchReturns demoConfig [sample ''gen-e''] (handleStartTest demoConfig [] fourBanked))))
     \<le> totalQuestions demoConfig \<and>
   distinct (map qId (questions (batchReturns demoConfig [sample ''gen-e'', sample ''gen-a'']
                                   (handleStartTest demoConfig [] fourBanked))))"
proof -
  have q: "quiescent fourBanked" by (simp add: quiescent_def fourBanked_def initialApp_def)
  have p: "pending (handleStartTest demoConfig [] fourBanked) = [1]"
    by (simp add: fourBanked_start)
  have d0: "distinct (map qId (questions (handleStartTest demoConfig [] fourBanked)))"
    by (simp add: fourBanked_start sample_id)
  have d1: "distinct (map qId [sample ''gen-e'', sample ''gen-a''])" by (simp add: sample_id)
  from active_set_merge [OF q, of demoConfig]
  have m: "\<forall>newQs.
             (distinct (map qId (questions (handleStartTest demoConfig [] fourBanked))) \<and>
              distinct (map qId newQs) \<longrightarrow>
                distinct (map qId (questions (batchReturns demoConfig newQs
                                               (handleStartTest demoConfig [] fourBanked))))) \<and>
             (\<forall>b. pending (handleStartTest demoConfig [] fourBanked) = [b] \<and> int (length newQs) \<le> b \<longrightarrow>
                int (length (questions (batchReturns demoConfig newQs
                                          (handleStartTest demoConfig [] fourBanked))))
                  \<le> totalQuestions demoConfig)"
    by (metis run.simps(1))
  from m p have "int (length (questions (batchReturns demoConfig [sample ''gen-e'']
                                          (handleStartTest demoConfig [] fourBanked))))
                  \<le> totalQuestions demoConfig"
    by simp
  moreover from m d0 d1 have "distinct (map qId (questions (batchReturns demoConfig [sample ''gen-e'', sample ''gen-a'']
                                   (handleStartTest demoConfig [] fourBanked))))"
    by blast
  ultimately show ?thesis using q p by simp
qed

text \<open>
  The claim as stated fails: nothing cuts a batch to the size that was requested. With
  four of five questions loaded the loader asks for one; a provider that answers with
  two takes the set to six.
\<close>

theorem merge_exceeds_total:
  "totalQuestions demoConfig = 5 \<and>
   length (questions (handleStartTest demoConfig [] fourBanked)) = 4 \<and>
   pending (handleStartTest demoConfig [] fourBanked) = [1] \<and>
   length (questions (batchReturns demoConfig
              (generateQuestions (answeringEnv (Responds (Some twoForOne))) demoConfig 1)
              (handleStartTest demoConfig [] fourBanked))) = 6"
proof -
  let ?batch = "generateQuestions (answeringEnv (Responds (Some twoForOne))) demoConfig 1"
  have l: "length ?batch = 2" using arg_cong [OF twoForOne_ids, of length] by simp
  have f: "filter (\<lambda>q. qId q \<notin> set (map qId (map sample [''gen-a'', ''gen-b'', ''gen-c'', ''gen-d'']))) ?batch = ?batch"
  proof (rule filter_True)
    show "\<forall>x\<in>set ?batch. qId x \<notin> set (map qId (map sample [''gen-a'', ''gen-b'', ''gen-c'', ''gen-d'']))"
    proof
      fix x assume "x \<in> set ?batch"
      then have "qId x \<in> set (map qId ?batch)" by simp
      then have "qId x \<in> {''gen-1700000000000-z'', ''gen-1700000000000-zz''}"
        unfolding twoForOne_ids by simp
      then show "qId x \<notin> set (map qId (map sample [''gen-a'', ''gen-b'', ''gen-c'', ''gen-d'']))"
        by (auto simp: sample_id)
    qed
  qed
  have t: "totalQuestions demoConfig = 5" by (simp add: demoConfig_def)
  have m: "length (questions (batchReturns demoConfig ?batch (handleStartTest demoConfig [] fourBanked))) = 6"
    using l f by (simp add: fourBanked_start batchReturns_def mergeQuestions_def Let_def)
  have s: "length (questions (handleStartTest demoConfig [] fourBanked)) = 4"
          "pending (handleStartTest demoConfig [] fourBanked) = [1]"
    by (simp_all add: fourBanked_start)
  show ?thesis using t m s by simp
qed

end
